(* ===== verification/Prelude.thy ===== *)
theory Prelude
  imports Main "HOL-Library.Word"
begin

text \<open>
  Shared vocabulary of the development of the response-decompression middleware
  (\<^verbatim>\<open>src/src/middleware/compression.rs\<close>).
  \<^item> Bytes of a body are \<open>8 word\<close> values (Rust \<open>u8\<close>); header text is a \<open>string\<close>,
    whose \<open>char\<close>s are bytes, as the bytes of an HTTP header value are.
  \<^item> The middleware never returns an error of its own: every failure is a panic of an
    \<open>unwrap\<close> or of \<open>HeaderValue::from_static\<close>. A computation of the model therefore ends in one of three ways, given
    by the type \<open>'a outcome = (panic + 'a) option\<close>: \<open>Some (Inr x)\<close> (returns
    \<open>x\<close>), \<open>Some (Inl p)\<close> (panics with \<open>p\<close>) or \<open>None\<close> (never returns, which only
    an endless decoder stream can cause).
  \<^item> \<open>out_bind\<close> sequences two such computations as Rust sequences two statements
    of an \<open>async fn\<close>: a panic or a divergence of the first is the result of the whole.
\<close>

type_synonym byte = "8 word"
type_synonym bytes = "byte list"

text \<open>An I/O error of a decoder stream (\<open>std::io::Error\<close>), identified by its message.\<close>

datatype io_error = Io_error string

text \<open>
  The three \<open>unwrap\<close> calls of \<open>Compression::decode\<close> and the panic each raises, and
  the panic of \<open>HeaderValue::from_static\<close> in \<open>handle\<close>.
\<close>

datatype panic =
    Parse_unwrap            \<comment> \<open>line 60: \<open>collect::<Result<Vec<Encoding>, ()>>().unwrap()\<close>\<close>
  | Chunk_unwrap io_error   \<comment> \<open>lines 73, 84, 95, 106: \<open>bytes.unwrap()\<close> on a failed chunk\<close>
  | Remove_unwrap           \<comment> \<open>line 116: \<open>headers_mut().remove(CONTENT_ENCODING).unwrap()\<close>\<close>
  | Invalid_header_value    \<comment> \<open>line 132: \<open>HeaderValue::from_static\<close> on a byte that is not visible ASCII\<close>

type_synonym 'a outcome = "(panic + 'a) option"

named_theorems outcome_simps "rewrite rules for sequencing outcomes"

definition out_bind :: "'a outcome \<Rightarrow> ('a \<Rightarrow> 'b outcome) \<Rightarrow> 'b outcome" where
  "out_bind m f = (case m of
      None \<Rightarrow> None
    | Some (Inl p) \<Rightarrow> Some (Inl p)
    | Some (Inr x) \<Rightarrow> f x)"

definition out_map :: "('a \<Rightarrow> 'b) \<Rightarrow> 'a outcome \<Rightarrow> 'b outcome" where
  "out_map f m = map_option (map_sum id f) m"

lemma out_bind_simps [simp, outcome_simps]:
  "out_bind None f = None"
  "out_bind (Some (Inl p)) f = Some (Inl p)"
  "out_bind (Some (Inr x)) f = f x"
  by (simp_all add: out_bind_def)

lemma out_map_simps [simp, outcome_simps]:
  "out_map f None = None"
  "out_map f (Some (Inl p)) = Some (Inl p)"
  "out_map f (Some (Inr x)) = Some (Inr (f x))"
  by (simp_all add: out_map_def)

lemma out_bind_Inr_iff [outcome_simps]:
  "out_bind m f = Some (Inr y) \<longleftrightarrow> (\<exists>x. m = Some (Inr x) \<and> f x = Some (Inr y))"
  by (auto simp: out_bind_def split: option.splits sum.splits)

lemma out_map_Inr_iff [outcome_simps]:
  "out_map f m = Some (Inr y) \<longleftrightarrow> (\<exists>x. m = Some (Inr x) \<and> y = f x)"
proof (cases m)
  case (Some z)
  then show ?thesis by (cases z) (auto simp: out_map_def)
qed (simp add: out_map_def)

lemma out_bind_None_iff [outcome_simps]:
  "out_bind m f = None \<longleftrightarrow> m = None \<or> (\<exists>x. m = Some (Inr x) \<and> f x = None)"
  by (auto simp: out_bind_def split: option.splits sum.splits)

lemma out_bind_assoc [outcome_simps]:
  "out_bind (out_bind m f) g = out_bind m (\<lambda>x. out_bind (f x) g)"
  by (auto simp: out_bind_def split: option.splits sum.splits)

lemma out_bind_returns:
  "m \<noteq> None \<Longrightarrow> (\<And>x. f x \<noteq> None) \<Longrightarrow> out_bind m f \<noteq> None"
  by (auto simp: out_bind_def split: option.splits sum.splits)

subsection \<open>Generic list facts shared by the components\<close>

lemma concat_map_Inr_projr:
  "concat (map projr (map Inr xs)) = concat xs"
  by (induction xs) simp_all

lemma foldl_append_acc:
  "foldl (\<lambda>acc b. acc @ [b]) acc bs = acc @ bs"
  by (induction bs arbitrary: acc) simp_all

end
