(* ===== verification/Str_Ops.thy ===== *)
theory Str_Ops
  imports Prelude
begin

text \<open>
  The Rust standard-library and \<open>http\<close>-crate operations that
  \<open>Compression::decode\<close> (lines 49--60) applies to the \<open>Content-Encoding\<close> value:
  \<open>HeaderValue::to_str\<close>, \<open>str::split(',')\<close>, \<open>str::trim\<close> and
  \<open>Iterator::collect::<Result<Vec<_>, _>>\<close>. They are library code, modelled from
  their documented behaviour on the inputs that reach them, with the lemmas the parser
  needs: splitting a join of separator-free pieces gives the pieces back, trimming is
  idempotent and leaves a text without surrounding whitespace unchanged, collecting
  succeeds exactly when every element does.
\<close>

subsection \<open>\<open>HeaderValue::to_str\<close>\<close>

text \<open>
  \<open>to_str\<close> succeeds iff every byte is visible ASCII (32 to 126) or a tab; the
  resulting \<open>&str\<close> has the same bytes.
\<close>

definition is_visible_ascii :: "char \<Rightarrow> bool" where
  "is_visible_ascii c \<longleftrightarrow>
     (32 \<le> (of_char c :: nat) \<and> (of_char c :: nat) < 127) \<or> c = CHR 0x09"

definition header_to_str :: "string \<Rightarrow> string option" where
  "header_to_str v = (if list_all is_visible_ascii v then Some v else None)"

subsection \<open>\<open>str::split\<close> with a character pattern\<close>

text \<open>
  \<open>s.split(c)\<close> yields the maximal pieces between occurrences of \<open>c\<close>; there is
  always at least one piece (\<open>"".split(',')\<close> yields \<open>[""]\<close>), and adjacent
  separators yield empty pieces.
\<close>

fun split_on :: "char \<Rightarrow> string \<Rightarrow> string list" where
  "split_on c [] = [[]]"
| "split_on c (x # xs) =
     (if x = c then [] # split_on c xs
      else (case split_on c xs of
              [] \<Rightarrow> [[x]]
            | p # ps \<Rightarrow> (x # p) # ps))"

text \<open>Joining pieces with a separator: the inverse of \<open>split_on\<close>.\<close>

fun join_with :: "string \<Rightarrow> string list \<Rightarrow> string" where
  "join_with sep [] = []"
| "join_with sep [p] = p"
| "join_with sep (p # q # ps) = p @ sep @ join_with sep (q # ps)"

subsection \<open>\<open>str::trim\<close>\<close>

text \<open>
  \<open>trim\<close> removes leading and trailing characters with \<open>char::is_whitespace\<close>. After
  \<open>to_str\<close> only visible ASCII and tab remain, and among ASCII characters the
  whitespace ones are tab, line feed, vertical tab, form feed, carriage return and space.
\<close>

definition is_whitespace :: "char \<Rightarrow> bool" where
  "is_whitespace c \<longleftrightarrow> (of_char c :: nat) \<in> {9, 10, 11, 12, 13, 32}"

definition trim :: "string \<Rightarrow> string" where
  "trim s = rev (dropWhile is_whitespace (rev (dropWhile is_whitespace s)))"

subsection \<open>\<open>collect::<Result<Vec<T>, E>>\<close>\<close>

text \<open>
  Collecting an iterator of results stops at the first \<open>Err\<close>, which is the result;
  otherwise it is \<open>Ok\<close> of the vector of all values, in order.
\<close>

fun collect_result :: "('e + 'a) list \<Rightarrow> 'e + 'a list" where
  "collect_result [] = Inr []"
| "collect_result (Inl e # _) = Inl e"
| "collect_result (Inr x # xs) =
     (case collect_result xs of Inl e \<Rightarrow> Inl e | Inr ys \<Rightarrow> Inr (x # ys))"

subsection \<open>Splitting and joining\<close>

lemma split_on_not_Nil [simp]: "split_on c s \<noteq> []"
  by (induction s) (auto split: list.split)

lemma split_on_append_sep:
  "c \<notin> set p \<Longrightarrow> split_on c (p @ c # s) = p # split_on c s"
  by (induction p) auto

lemma split_on_no_sep: "c \<notin> set p \<Longrightarrow> split_on c p = [p]"
  by (induction p) auto

subsection \<open>Trimming\<close>

lemma trim_no_ws_ends:
  "s \<noteq> [] \<Longrightarrow> \<not> is_whitespace (hd s) \<Longrightarrow> \<not> is_whitespace (last s) \<Longrightarrow> trim s = s"
proof -
  assume ne: "s \<noteq> []" and h: "\<not> is_whitespace (hd s)" and l: "\<not> is_whitespace (last s)"
  from ne h have "dropWhile is_whitespace s = s"
    by (cases s) simp_all
  moreover from ne l have "dropWhile is_whitespace (rev s) = rev s"
    by (cases "rev s") (simp_all add: last_rev [symmetric])
  ultimately show "trim s = s" by (simp add: trim_def)
qed

lemma trim_Nil [simp]: "trim [] = []"
  by (simp add: trim_def)

lemma trim_ends:
  "trim s \<noteq> [] \<Longrightarrow> \<not> is_whitespace (hd (trim s)) \<and> \<not> is_whitespace (last (trim s))"
proof -
  assume ne: "trim s \<noteq> []"
  let ?d = "dropWhile is_whitespace s"
  have last: "\<not> is_whitespace (last (trim s))"
    using ne hd_dropWhile[of is_whitespace "rev ?d"]
    by (simp add: trim_def last_rev)
  have "?d \<noteq> []"
  proof
    assume "?d = []"
    with ne show False by (simp add: trim_def)
  qed
  then have hd_d: "\<not> is_whitespace (hd ?d)" by (rule hd_dropWhile)
  have "\<exists>suf. ?d = trim s @ suf"
    by (metis append_take_drop_id rev_append rev_rev_ident takeWhile_dropWhile_id trim_def)
  then have "hd ?d = hd (trim s)" using ne by auto
  with hd_d last show ?thesis by simp
qed

lemma trim_idem [simp]: "trim (trim s) = trim s"
  by (cases "trim s = []") (simp_all add: trim_ends trim_no_ws_ends)

subsection \<open>Collecting results\<close>

lemma collect_result_map_Inr [simp]: "collect_result (map Inr ys) = Inr ys"
  by (induction ys) simp_all

lemma collect_result_Inr_iff:
  "collect_result xs = Inr ys \<longleftrightarrow> xs = map Inr ys"
proof
  show "collect_result xs = Inr ys \<Longrightarrow> xs = map Inr ys"
    by (induction xs arbitrary: ys rule: collect_result.induct) (auto split: sum.splits)
qed simp

lemma collect_result_Inl_iff:
  "(\<exists>e. collect_result xs = Inl e) \<longleftrightarrow> (\<exists>e. Inl e \<in> set xs)"
  by (induction xs rule: collect_result.induct) (auto split: sum.splits)

lemma split_on_join_with:
  "ps \<noteq> [] \<Longrightarrow> (\<forall>p \<in> set ps. c \<notin> set p) \<Longrightarrow> split_on c (join_with [c] ps) = ps"
proof (induction ps rule: induct_list012)
  case 1
  then show ?case by simp
next
  case (2 p)
  then show ?case by (simp add: split_on_no_sep)
next
  case (3 p q ps)
  then show ?case by (simp add: split_on_append_sep)
qed

end
