(* ===== verification/Header_Map.thy ===== *)
theory Header_Map
  imports Prelude
begin

text \<open>
  The header map of a request or response (\<open>http::HeaderMap\<close>) as the middleware uses
  it: \<open>get\<close> (line 49), \<open>remove\<close> (line 116) and \<open>insert\<close> (lines 131--132).
  A \<open>HeaderMap\<close> is a multimap: one name may carry several values, each header line
  of the message being one entry. It is modelled as the list of its entries in order,
  names already normalised to lower case as \<open>HeaderName\<close> stores them.
  \<^item> \<open>get\<close> returns the first value of a name;
  \<^item> \<open>remove\<close> removes every value of the name and returns the first;
  \<^item> \<open>insert\<close> replaces every value of the name by the new one, in the position of
    the first, and returns the previous first value; a new name is appended.
  The lemmas are the laws the middleware's proofs use, stated through \<open>hm_get_all\<close>
  (all values of a name): lookup after insert and after remove, the frame of the other
  names, and the value each update returns.
\<close>

type_synonym header_name = string
type_synonym header_value = string
type_synonym header_map = "(header_name \<times> header_value) list"

named_theorems hm_simps "laws of the header map operations"

fun hm_get :: "header_map \<Rightarrow> header_name \<Rightarrow> header_value option" where
  "hm_get [] k = None"
| "hm_get ((n, v) # h) k = (if n = k then Some v else hm_get h k)"

definition hm_remove :: "header_map \<Rightarrow> header_name \<Rightarrow> header_value option \<times> header_map" where
  "hm_remove h k = (hm_get h k, filter (\<lambda>(n, _). n \<noteq> k) h)"

fun hm_replace :: "header_name \<Rightarrow> header_value \<Rightarrow> header_map \<Rightarrow> header_map" where
  "hm_replace k v [] = []"
| "hm_replace k v ((n, w) # h) =
     (if n = k then (k, v) # filter (\<lambda>(n', _). n' \<noteq> k) h
      else (n, w) # hm_replace k v h)"

definition hm_insert ::
  "header_map \<Rightarrow> header_name \<Rightarrow> header_value \<Rightarrow> header_value option \<times> header_map" where
  "hm_insert h k v = (case hm_get h k of
      None \<Rightarrow> (None, h @ [(k, v)])
    | Some old \<Rightarrow> (Some old, hm_replace k v h))"

text \<open>All values of a name, in order (\<open>HeaderMap::get_all\<close>): the observation the laws use.\<close>

definition hm_get_all :: "header_map \<Rightarrow> header_name \<Rightarrow> header_value list" where
  "hm_get_all h k = map snd (filter (\<lambda>(n, _). n = k) h)"

subsection \<open>Laws\<close>

lemma hm_get_first [hm_simps]:
  "hm_get h k = (case hm_get_all h k of [] \<Rightarrow> None | v # _ \<Rightarrow> Some v)"
  by (induction h) (auto simp: hm_get_all_def)

lemma hm_get_None_iff [hm_simps]: "hm_get h k = None \<longleftrightarrow> k \<notin> fst ` set h"
proof (induction h)
  case (Cons e h)
  then show ?case by (cases e) auto
qed simp

lemma hm_get_all_Cons [hm_simps]:
  "hm_get_all ((n, w) # h) k' = (if n = k' then w # hm_get_all h k' else hm_get_all h k')"
  by (simp add: hm_get_all_def)

lemma hm_get_all_filter:
  "hm_get_all (filter (\<lambda>(n, _). n \<noteq> k) h) k' = (if k' = k then [] else hm_get_all h k')"
  by (induction h) (auto simp: hm_get_all_def)

lemma hm_get_all_remove [hm_simps]:
  "hm_get_all (snd (hm_remove h k)) k' = (if k' = k then [] else hm_get_all h k')"
  by (simp add: hm_remove_def hm_get_all_filter)

lemma hm_get_remove [hm_simps]:
  "hm_get (snd (hm_remove h k)) k' = (if k' = k then None else hm_get h k')"
  by (simp only: hm_get_first hm_get_all_remove) simp

lemma hm_remove_absent [hm_simps]: "hm_get h k = None \<Longrightarrow> hm_remove h k = (None, h)"
  by (induction h) (auto simp: hm_remove_def)

lemma hm_get_all_append [hm_simps]:
  "hm_get_all (h @ h') k = hm_get_all h k @ hm_get_all h' k"
  by (simp add: hm_get_all_def)

lemma hm_get_all_absent: "hm_get h k = None \<Longrightarrow> hm_get_all h k = []"
  by (simp add: hm_get_first split: list.splits)

lemma hm_get_all_replace:
  "hm_get_all (hm_replace k v h) k' =
     (if k' = k then (if hm_get h k = None then [] else [v]) else hm_get_all h k')"
proof (induction h)
  case Nil
  then show ?case by (simp add: hm_get_all_def)
next
  case (Cons e h)
  obtain n w where e: "e = (n, w)" by fastforce
  from Cons.IH show ?case
    by (auto simp: e hm_get_all_Cons hm_get_all_filter)
qed

lemma hm_get_all_insert [hm_simps]:
  "hm_get_all (snd (hm_insert h k v)) k' = (if k' = k then [v] else hm_get_all h k')"
proof (cases "hm_get h k")
  case None
  have "hm_get_all h k = []" using None by (rule hm_get_all_absent)
  moreover have "hm_get_all [(k, v)] k' = (if k' = k then [v] else [])"
    by (simp add: hm_get_all_def)
  ultimately show ?thesis using None by (simp add: hm_insert_def hm_get_all_append)
next
  case (Some old)
  then show ?thesis by (simp add: hm_insert_def hm_get_all_replace)
qed

lemma hm_insert_prev [hm_simps]: "fst (hm_insert h k v) = hm_get h k"
  by (simp add: hm_insert_def split: option.split)

lemma hm_remove_prev [hm_simps]: "fst (hm_remove h k) = hm_get h k"
  by (simp add: hm_remove_def)

end
