(* ===== verification/Negotiator.thy ===== *)
theory Negotiator
  imports Str_Ops Header_Map
begin

text \<open>
  The encoding negotiator of \<^verbatim>\<open>compression.rs\<close>: the \<open>Encoding\<close> tag, the
  advertised capability string \<open>SUPPORTED_ENCODINGS\<close> (line 18), the token parser
  \<open>Compression::parse_encoding\<close> (lines 37--46), the chain parser that
  \<open>Compression::decode\<close> runs on the \<open>Content-Encoding\<close> text (lines 56--60:
  split on commas, trim, reverse, parse each token, collect) and the request-side step of
  \<open>handle\<close> that inserts \<open>Accept-Encoding\<close> (lines 131--132).
  The lemmas characterise the chain parser exactly (it succeeds iff every trimmed
  piece is one of the five tokens, and then returns the encodings in reverse header
  order), give its round trip with the printer of a chain, and show that everything the
  client advertises is accepted by its own parser.
\<close>

datatype encoding = Gzip | Deflate | Brotli | Zstd | Identity

definition supported_encodings :: string where
  "supported_encodings = ''gzip, br, deflate, zstd''"

definition content_encoding :: header_name where
  "content_encoding = ''content-encoding''"

definition accept_encoding :: header_name where
  "accept_encoding = ''accept-encoding''"

definition parse_encoding :: "string \<Rightarrow> unit + encoding" where
  "parse_encoding s =
     (if s = ''gzip'' then Inr Gzip
      else if s = ''deflate'' then Inr Deflate
      else if s = ''br'' then Inr Brotli
      else if s = ''zstd'' then Inr Zstd
      else if s = ''identity'' then Inr Identity
      else Inl ())"

definition parse_chain :: "string \<Rightarrow> unit + encoding list" where
  "parse_chain s =
     collect_result (map parse_encoding (rev (map trim (split_on (CHR '','') s))))"

text \<open>
  A request: its headers and its body; the other fields of \<open>surf::Request\<close> (method,
  URL, \<dots>) are the record's extension, which no operation touches.
\<close>

record request =
  req_headers :: header_map
  req_body :: bytes

text \<open>
  \<open>HeaderValue::from_static\<close> (line 132): the value of a static string, which panics
  unless every byte is visible ASCII or a tab.
\<close>

definition from_static :: "string \<Rightarrow> header_value outcome" where
  "from_static s = (if list_all is_visible_ascii s then Some (Inr s) else Some (Inl Invalid_header_value))"

text \<open>\<open>req.headers_mut().insert(ACCEPT_ENCODING, v)\<close> (lines 131--132).\<close>

definition with_accept_encoding :: "header_value \<Rightarrow> 'a request_scheme \<Rightarrow> 'a request_scheme" where
  "with_accept_encoding v req =
     req\<lparr>req_headers := snd (hm_insert (req_headers req) accept_encoding v)\<rparr>"

text \<open>The first statement of \<open>handle\<close>: build the static value, then insert it.\<close>

definition advertise :: "'a request_scheme \<Rightarrow> 'a request_scheme outcome" where
  "advertise req = out_map (\<lambda>v. with_accept_encoding v req) (from_static supported_encodings)"

text \<open>The wire token of each encoding: the printer the parser inverts.\<close>

primrec token :: "encoding \<Rightarrow> string" where
  "token Gzip = ''gzip''"
| "token Deflate = ''deflate''"
| "token Brotli = ''br''"
| "token Zstd = ''zstd''"
| "token Identity = ''identity''"

text \<open>A chain as a server writes it: the tokens in the order the encodings were applied.\<close>

definition print_chain :: "encoding list \<Rightarrow> string" where
  "print_chain es = join_with '', '' (map token es)"

text \<open>
  A chain with optional whitespace around each token, as HTTP allows
  (\<open>l\<^sub>i\<close> and \<open>r\<^sub>i\<close> the whitespace before and after the \<open>i\<close>-th token).
\<close>

definition pad_chain :: "(string \<times> encoding \<times> string) list \<Rightarrow> string" where
  "pad_chain xs = join_with '','' (map (\<lambda>(l, e, r). l @ token e @ r) xs)"

text \<open>
  \<open>encoding\<close> is a finite type: the instance of \<open>enum\<close> lists its five values, so
  that sets and quantifiers over encodings are computed by the simplifier.
\<close>

instantiation encoding :: enum
begin

definition enum_encoding :: "encoding list" where
  "enum_encoding = [Gzip, Deflate, Brotli, Zstd, Identity]"

definition enum_all_encoding :: "(encoding \<Rightarrow> bool) \<Rightarrow> bool" where
  "enum_all_encoding P \<longleftrightarrow> P Gzip \<and> P Deflate \<and> P Brotli \<and> P Zstd \<and> P Identity"

definition enum_ex_encoding :: "(encoding \<Rightarrow> bool) \<Rightarrow> bool" where
  "enum_ex_encoding P \<longleftrightarrow> P Gzip \<or> P Deflate \<or> P Brotli \<or> P Zstd \<or> P Identity"

instance
proof
  show "(UNIV :: encoding set) = set enum_class.enum"
    by (auto simp: enum_encoding_def intro: encoding.exhaust)
next
  show "distinct (enum_class.enum :: encoding list)"
    by (simp add: enum_encoding_def)
next
  fix P :: "encoding \<Rightarrow> bool"
  show "enum_class.enum_all P = Ball UNIV P"
    by (auto simp: enum_all_encoding_def intro: encoding.induct)
  show "enum_class.enum_ex P = Bex UNIV P"
  proof
    assume "enum_class.enum_ex P"
    then show "Bex UNIV P" by (auto simp: enum_ex_encoding_def)
  next
    assume "Bex UNIV P"
    then obtain x where "P x" by blast
    then show "enum_class.enum_ex P" by (cases x) (simp_all add: enum_ex_encoding_def)
  qed
qed

end

subsection \<open>Token parser\<close>

lemma parse_encoding_token [simp]: "parse_encoding (token e) = Inr e"
  by (cases e) (simp_all add: parse_encoding_def)

lemma parse_encoding_Inr_iff: "parse_encoding s = Inr e \<longleftrightarrow> s = token e"
  by (cases e) (auto simp: parse_encoding_def)

lemma parse_encoding_Inl_iff: "parse_encoding s = Inl () \<longleftrightarrow> s \<notin> range token"
proof -
  have "parse_encoding s = Inl () \<longleftrightarrow> (\<forall>e. parse_encoding s \<noteq> Inr e)"
    by (cases "parse_encoding s") auto
  then show ?thesis by (auto simp: parse_encoding_Inr_iff)
qed

lemma token_inj: "token e = token e' \<longleftrightarrow> e = e'"
  by (cases e; cases e') simp_all

lemma token_not_Nil: "token e \<noteq> []"
  by (cases e) simp_all

lemma token_no_comma: "CHR '','' \<notin> set (token e)"
  by (cases e) simp_all

lemma token_trim [simp]: "trim (token e) = token e"
  by (cases e) (simp_all add: trim_def is_whitespace_def)

subsection \<open>Chain parser\<close>

lemma map_parse_encoding_eq_map_Inr:
  "map parse_encoding ts = map Inr es \<longleftrightarrow> ts = map token es"
proof (induction ts arbitrary: es)
  case Nil
  then show ?case by auto
next
  case (Cons t ts)
  then show ?case by (cases es) (auto simp: parse_encoding_Inr_iff)
qed

lemma parse_chain_Inr_iff:
  "parse_chain s = Inr es \<longleftrightarrow> rev (map trim (split_on (CHR '','') s)) = map token es"
  by (simp add: parse_chain_def collect_result_Inr_iff map_parse_encoding_eq_map_Inr)

lemma is_whitespace_not_comma: "is_whitespace x \<Longrightarrow> x \<noteq> CHR '',''"
  by (auto simp: is_whitespace_def)

lemma trim_ws_prefix: "\<forall>x \<in> set pre. is_whitespace x \<Longrightarrow> trim (pre @ p) = trim p"
  by (simp add: trim_def dropWhile_append2)

lemma print_chain_Cons_Cons:
  "print_chain (e # e' # es) = token e @ '', '' @ print_chain (e' # es)"
  by (simp add: print_chain_def)

lemma trim_split_print_chain:
  "es \<noteq> [] \<Longrightarrow> \<forall>x \<in> set pre. is_whitespace x \<Longrightarrow>
     map trim (split_on (CHR '','') (pre @ print_chain es)) = map token es"
proof (induction es arbitrary: pre rule: induct_list012)
  case 1
  then show ?case by simp
next
  case (2 e)
  then have "CHR '','' \<notin> set (pre @ token e)"
    by (auto simp: token_no_comma dest: is_whitespace_not_comma)
  with "2.prems" show ?case
    by (simp add: print_chain_def split_on_no_sep trim_ws_prefix)
next
  case (3 e e' es)
  have nc: "CHR '','' \<notin> set (pre @ token e)"
    using "3.prems"(2) by (auto simp: token_no_comma dest: is_whitespace_not_comma)
  have ws: "\<forall>x \<in> set '' ''. is_whitespace x"
    by (simp add: is_whitespace_def)
  let ?rest = "'' '' @ print_chain (e' # es)"
  have "pre @ print_chain (e # e' # es) = (pre @ token e) @ CHR '','' # ?rest"
    by (simp add: print_chain_Cons_Cons)
  moreover have "split_on (CHR '','') ((pre @ token e) @ CHR '','' # ?rest) =
      (pre @ token e) # split_on (CHR '','') ?rest"
    using nc by (rule split_on_append_sep)
  ultimately have "map trim (split_on (CHR '','') (pre @ print_chain (e # e' # es))) =
      trim (pre @ token e) # map trim (split_on (CHR '','') ?rest)"
    by simp
  also have "\<dots> = token e # map token (e' # es)"
    using "3.IH"(2)[OF _ ws] "3.prems"(2) by (simp add: trim_ws_prefix)
  finally show ?case by simp
qed

lemma from_static_supported: "from_static supported_encodings = Some (Inr supported_encodings)"
  by (simp add: from_static_def supported_encodings_def is_visible_ascii_def)

lemma advertise_eq: "advertise req = Some (Inr (with_accept_encoding supported_encodings req))"
  by (simp add: advertise_def from_static_supported)

lemma with_accept_encoding_get:
  "hm_get (req_headers (with_accept_encoding v req)) accept_encoding = Some v"
  by (simp add: with_accept_encoding_def hm_get_first hm_get_all_insert)

lemma token_visible: "list_all is_visible_ascii (token e)"
  by (cases e) (simp_all add: is_visible_ascii_def)

lemma set_join_with: "set (join_with sep ps) \<subseteq> set sep \<union> \<Union> (set ` set ps)"
  by (induction sep ps rule: join_with.induct) auto

lemma print_chain_to_str: "header_to_str (print_chain es) = Some (print_chain es)"
proof -
  have "\<forall>c \<in> set (print_chain es). is_visible_ascii c"
  proof
    fix c assume "c \<in> set (print_chain es)"
    then have "c \<in> set '', '' \<or> (\<exists>e. c \<in> set (token e))"
      using set_join_with [of "'', ''" "map token es"] by (auto simp: print_chain_def)
    then show "is_visible_ascii c"
      using token_visible by (auto simp: is_visible_ascii_def list_all_iff)
  qed
  then show ?thesis by (simp add: header_to_str_def list_all_iff)
qed

lemma parse_chain_print_chain: "es \<noteq> [] \<Longrightarrow> parse_chain (print_chain es) = Inr (rev es)"
  using trim_split_print_chain [of es "[]"] by (simp add: parse_chain_Inr_iff rev_map)

lemma token_no_ws: "c \<in> set (token e) \<Longrightarrow> \<not> is_whitespace c"
  by (cases e) (auto simp: is_whitespace_def)

lemma trim_padded_token:
  assumes l: "\<forall>c \<in> set l. is_whitespace c" and r: "\<forall>c \<in> set r. is_whitespace c"
  shows "trim (l @ token e @ r) = token e"
proof -
  obtain x xs where t: "token e = x # xs"
    by (cases "token e") (simp_all add: token_not_Nil)
  obtain y ys where rt: "rev (token e) = y # ys"
    by (cases "rev (token e)") (simp_all add: token_not_Nil)
  have nx: "\<not> is_whitespace x" using t token_no_ws [of x e] by simp
  have ny: "\<not> is_whitespace y" using rt token_no_ws [of y e] by (metis list.set_intros(1) set_rev)
  have "dropWhile is_whitespace (l @ token e @ r) = token e @ r"
    using l nx t by (simp add: dropWhile_append2)
  moreover have "dropWhile is_whitespace (rev (token e @ r)) = rev (token e)"
  proof -
    have "dropWhile is_whitespace (rev r @ y # ys) = dropWhile is_whitespace (y # ys)"
      by (rule dropWhile_append2) (use r in auto)
    with ny rt show ?thesis by simp
  qed
  ultimately show ?thesis by (simp add: trim_def)
qed

subsection \<open>Properties of the negotiator\<close>

text \<open>
  C3 (round trip, order). A chain written by a server in application order, with any
  optional whitespace around each token, parses to the same encodings in reverse order:
  the last one applied is undone first. For \<open>Content-Encoding: gzip, br\<close> the
  driver applies brotli, then gzip.
\<close>

theorem parse_chain_padded_reverses:
  assumes "xs \<noteq> []"
    and "\<forall>(l, e, r) \<in> set xs. (\<forall>c \<in> set l. is_whitespace c) \<and> (\<forall>c \<in> set r. is_whitespace c)"
  shows "parse_chain (pad_chain xs) = Inr (rev (map (\<lambda>(l, e, r). e) xs))"
proof -
  let ?ps = "map (\<lambda>(l, e, r). l @ token e @ r) xs"
  have pads: "\<forall>c \<in> set l. is_whitespace c" "\<forall>c \<in> set r. is_whitespace c"
    if "(l, e, r) \<in> set xs" for l e r
    using assms(2) that by fastforce+
  have "\<forall>p \<in> set ?ps. CHR '','' \<notin> set p"
  proof
    fix p assume "p \<in> set ?ps"
    then obtain l e r where lr: "(l, e, r) \<in> set xs" and p: "p = l @ token e @ r" by auto
    show "CHR '','' \<notin> set p"
      using pads [OF lr] p token_no_comma [of e] by (auto dest: is_whitespace_not_comma)
  qed
  then have "split_on (CHR '','') (pad_chain xs) = ?ps"
    using assms(1) by (simp add: pad_chain_def split_on_join_with)
  moreover have "map trim ?ps = map token (map (\<lambda>(l, e, r). e) xs)"
  proof -
    have "trim (l @ token e @ r) = token e" if "(l, e, r) \<in> set xs" for l e r
      using pads [OF that] by (rule trim_padded_token)
    then show ?thesis by (auto intro!: map_cong)
  qed
  ultimately show ?thesis by (simp add: parse_chain_Inr_iff rev_map)
qed

theorem parse_chain_padded_reverses_witness:
  "parse_chain ''gzip , br'' = Inr [Brotli, Gzip]"
proof -
  let ?xs = "[([], Gzip, '' ''), ('' '', Brotli, [])]"
  have "parse_chain (pad_chain ?xs) = Inr (rev (map (\<lambda>(l, e, r). e) ?xs))"
    by (rule parse_chain_padded_reverses) (simp_all add: is_whitespace_def)
  then show ?thesis by (simp add: pad_chain_def)
qed

text \<open>
  C25 (error). The chain parser fails exactly when some comma-separated piece, trimmed,
  is not one of the five tokens; a single bad piece rejects the whole chain. This
  includes the empty piece of a trailing comma or of an empty header value.
\<close>

theorem parse_chain_rejects_iff:
  "parse_chain s = Inl () \<longleftrightarrow> (\<exists>p \<in> set (split_on (CHR '','') s). trim p \<notin> range token)"
proof -
  have "parse_chain s = Inl () \<longleftrightarrow> (\<exists>u. parse_chain s = Inl u)"
    by auto
  also have "\<dots> \<longleftrightarrow> (\<exists>u. Inl u \<in> set (map parse_encoding (rev (map trim (split_on (CHR '','') s)))))"
    unfolding parse_chain_def by (rule collect_result_Inl_iff)
  also have "\<dots> \<longleftrightarrow> (\<exists>p \<in> set (split_on (CHR '','') s). trim p \<notin> range token)"
    by (force simp: parse_encoding_Inl_iff [symmetric])
  finally show ?thesis .
qed

text \<open>
  C26 (functional). \<open>parse_encoding\<close> accepts exactly the five lower-case tokens; matching
  is case-sensitive, so \<open>GZIP\<close> or \<open>Gzip\<close> is rejected.
\<close>

theorem parse_encoding_accepts_exactly:
  "(\<exists>e. parse_encoding s = Inr e) \<longleftrightarrow> s \<in> {''gzip'', ''deflate'', ''br'', ''zstd'', ''identity''}"
  by (auto simp: parse_encoding_def)

text \<open>The capability string, read back with the client's own chain parser.\<close>

lemma supported_encodings_parse:
  "parse_chain supported_encodings = Inr [Zstd, Deflate, Brotli, Gzip]"
  by (simp add: supported_encodings_def parse_chain_def trim_def is_whitespace_def parse_encoding_def)

text \<open>
  C27 (functional). \<open>advertise\<close> never panics (the static capability string is a
  valid header value) and leaves exactly one \<open>Accept-Encoding\<close> value, the capability
  string, overwriting any earlier ones; every other header and every other field of the
  request are unchanged.
\<close>

theorem advertise_sets_accept_encoding:
  "\<exists>req'. advertise req = Some (Inr req') \<and>
     (\<forall>k. hm_get_all (req_headers req') k =
        (if k = accept_encoding then [supported_encodings] else hm_get_all (req_headers req) k)) \<and>
     req'\<lparr>req_headers := req_headers req\<rparr> = req"
  by (simp add: advertise_eq with_accept_encoding_def hm_get_all_insert)

end
