(* ===== verification/Stream.thy ===== *)
theory Stream
  imports Prelude
begin

text \<open>
  The streaming core of \<open>Compression::decode\<close>: the loop that drains a decoder stream
  into a byte vector (lines 70--76, repeated for each codec at 81--87, 92--98 and
  103--109):
  \<^verbatim>\<open>
    let mut decoded_content: Vec<u8> = Vec::new();
    while let Some(bytes) = decoded_stream.next().await {
        for byte in bytes.unwrap() { decoded_content.push(byte); }
    }
  \<close>
  A decoder stream is an external state machine: \<open>next\<close> takes its state to
  \<open>None\<close> (the stream has ended) or to a new state and an item, a chunk of bytes or an
  I/O error (\<open>Option<Result<Bytes, io::Error>>\<close>). Nothing bounds how many items a
  stream yields, so the loop is a \<^theory_text>\<open>partial_function\<close> in the option monad:
  \<open>None\<close> is the loop that never ends.
  The lemmas: the byte-by-byte copy is an append; on a stream that yields a finite list
  of items the loop computes \<open>drain_spec\<close> of that list (refinement of the loop by a
  fold over the trace); a stream whose state decreases in a well-founded measure yields a
  finite trace, so the loop ends; and a stream that never ends makes the loop diverge.
\<close>

type_synonym chunk = "io_error + bytes"
type_synonym 's stream_next = "'s \<Rightarrow> ('s \<times> chunk) option"

text \<open>\<open>for byte in bytes { decoded_content.push(byte) }\<close>\<close>

fun push_bytes :: "bytes \<Rightarrow> bytes \<Rightarrow> bytes" where
  "push_bytes acc [] = acc"
| "push_bytes acc (b # bs) = push_bytes (acc @ [b]) bs"

partial_function (option) drain :: "'s stream_next \<Rightarrow> 's \<Rightarrow> bytes \<Rightarrow> bytes outcome" where
  "drain nxt s acc =
     (case nxt s of
        None \<Rightarrow> Some (Inr acc)
      | Some (s', Inl e) \<Rightarrow> Some (Inl (Chunk_unwrap e))
      | Some (s', Inr bs) \<Rightarrow> drain nxt s' (push_bytes acc bs))"

subsection \<open>The trace of a stream and the specification of the loop\<close>

text \<open>\<open>produces nxt s cs\<close>: started in \<open>s\<close>, the stream yields the items \<open>cs\<close> and then ends.\<close>

inductive produces :: "'s stream_next \<Rightarrow> 's \<Rightarrow> chunk list \<Rightarrow> bool" for nxt where
  produces_end: "nxt s = None \<Longrightarrow> produces nxt s []"
| produces_item: "nxt s = Some (s', c) \<Longrightarrow> produces nxt s' cs \<Longrightarrow> produces nxt s (c # cs)"

inductive_cases produces_NilE: "produces nxt s []"
inductive_cases produces_ConsE: "produces nxt s (c # cs)"

text \<open>What draining a finite trace computes: the first error panics, else all bytes in order.\<close>

fun drain_spec :: "chunk list \<Rightarrow> bytes \<Rightarrow> panic + bytes" where
  "drain_spec [] acc = Inr acc"
| "drain_spec (Inl e # _) acc = Inl (Chunk_unwrap e)"
| "drain_spec (Inr bs # cs) acc = drain_spec cs (acc @ bs)"

definition stream_wf :: "'s stream_next \<Rightarrow> ('s \<Rightarrow> nat) \<Rightarrow> bool" where
  "stream_wf nxt \<mu> \<longleftrightarrow> (\<forall>s s' c. nxt s = Some (s', c) \<longrightarrow> \<mu> s' < \<mu> s)"

text \<open>A stream over a fixed list of items (as \<open>futures::stream::iter\<close> is).\<close>

fun list_next :: "chunk list stream_next" where
  "list_next [] = None"
| "list_next (c # cs) = Some (cs, c)"

subsection \<open>Lemmas\<close>

lemma push_bytes_eq [simp]: "push_bytes acc bs = acc @ bs"
  by (induction acc bs rule: push_bytes.induct) simp_all

lemma drain_unfold:
  "drain nxt s acc =
     (case nxt s of
        None \<Rightarrow> Some (Inr acc)
      | Some (s', Inl e) \<Rightarrow> Some (Inl (Chunk_unwrap e))
      | Some (s', Inr bs) \<Rightarrow> drain nxt s' (acc @ bs))"
  by (subst drain.simps) (simp split: option.split sum.split)

lemma drain_produces_eq:
  "produces nxt s cs \<Longrightarrow> drain nxt s acc = Some (drain_spec cs acc)"
proof (induction arbitrary: acc rule: produces.induct)
  case (produces_end s)
  then show ?case by (subst drain_unfold) simp
next
  case (produces_item s s' c cs)
  then show ?case by (cases c) (subst drain_unfold; simp)+
qed

lemma produces_list_next: "produces list_next cs cs"
  by (induction cs) (auto intro: produces.intros)

lemma stream_wf_list_next: "stream_wf list_next length"
  by (auto simp: stream_wf_def elim: list_next.elims)

lemma stream_wf_produces: "stream_wf nxt \<mu> \<Longrightarrow> \<exists>cs. produces nxt s cs"
proof (induction s rule: measure_induct_rule [of \<mu>])
  case (less s)
  show ?case
  proof (cases "nxt s")
    case None
    then show ?thesis by (blast intro: produces_end)
  next
    case (Some a)
    then obtain s' c where a: "nxt s = Some (s', c)" by (cases a) auto
    with less.prems have "\<mu> s' < \<mu> s" by (auto simp: stream_wf_def)
    with less obtain cs where "produces nxt s' cs" by blast
    with a show ?thesis by (blast intro: produces_item)
  qed
qed

lemma drain_spec_Inr_iff:
  "drain_spec cs acc = Inr r \<longleftrightarrow> (\<exists>bss. cs = map Inr bss \<and> r = acc @ concat bss)"
proof (induction cs acc rule: drain_spec.induct)
  case (3 bs cs acc)
  then show ?case by (auto simp: Cons_eq_map_conv)
qed auto

lemma drain_spec_map_Inr [simp]: "drain_spec (map Inr bss) acc = Inr (acc @ concat bss)"
  by (induction bss arbitrary: acc) simp_all

lemma drain_spec_error:
  "drain_spec (map Inr bss @ Inl e # cs) acc = Inl (Chunk_unwrap e)"
  by (induction bss arbitrary: acc) simp_all

lemma drain_result_panic:
  assumes "drain nxt s acc = Some r"
  shows "case r of Inl p \<Rightarrow> \<exists>e. p = Chunk_unwrap e | Inr _ \<Rightarrow> True"
proof (rule drain.raw_induct
    [where P = "\<lambda>nxt s acc r. case r of Inl p \<Rightarrow> \<exists>e. p = Chunk_unwrap e | Inr _ \<Rightarrow> True", OF _ assms])
  fix f nxt s acc r
  assume IH: "\<And>s acc b y. f s acc b = Some y \<Longrightarrow>
      (case y of Inl p \<Rightarrow> \<exists>e. p = Chunk_unwrap e | Inr _ \<Rightarrow> True)"
    and eq: "(case nxt s of None \<Rightarrow> Some (Inr acc)
      | Some (s', Inl e) \<Rightarrow> Some (Inl (Chunk_unwrap e))
      | Some (s', Inr bs) \<Rightarrow> f nxt s' (push_bytes acc bs)) = Some r"
  from eq IH show "case r of Inl p \<Rightarrow> \<exists>e. p = Chunk_unwrap e | Inr _ \<Rightarrow> True"
    by (auto split: option.splits sum.splits dest!: IH)
qed

lemma drain_endless_None:
  assumes endless: "\<And>s. \<exists>s' bs. nxt s = Some (s', Inr bs)"
  shows "drain nxt s acc = None"
proof (rule ccontr)
  assume "drain nxt s acc \<noteq> None"
  then obtain r where ret: "drain nxt s acc = Some r" by blast
  have "nxt \<noteq> nxt"
  proof (rule drain.raw_induct [where P = "\<lambda>nxt' s acc r. nxt' \<noteq> nxt", OF _ ret])
    fix f nxt' s acc r
    assume IH: "\<And>s acc b y. f s acc b = Some y \<Longrightarrow> s \<noteq> nxt"
      and eq: "(case nxt' s of None \<Rightarrow> Some (Inr acc)
      | Some (s', Inl e) \<Rightarrow> Some (Inl (Chunk_unwrap e))
      | Some (s', Inr bs) \<Rightarrow> f nxt' s' (push_bytes acc bs)) = Some r"
    show "nxt' \<noteq> nxt"
    proof
      assume same: "nxt' = nxt"
      from endless obtain s' bs where "nxt s = Some (s', Inr bs)" by blast
      with eq same have "f nxt s' (push_bytes acc bs) = Some r" by simp
      then have "nxt \<noteq> nxt" by (rule IH)
      then show False by simp
    qed
  qed
  then show False by simp
qed

subsection \<open>Properties of the drain loop\<close>

text \<open>
  C19 (refinement). On a stream that yields the chunks \<open>bss\<close> without error and then
  ends, the loop returns the accumulator followed by all bytes of all chunks, in order.
\<close>

theorem drain_collects:
  "produces nxt s (map Inr bss) \<Longrightarrow> drain nxt s acc = Some (Inr (acc @ concat bss))"
  by (simp add: drain_produces_eq)

theorem drain_collects_witness:
  "drain list_next [Inr [1, 2], Inr [3]] [] = Some (Inr [1, 2, 3 :: byte])"
  using drain_collects [OF produces_list_next [of "map Inr [[1, 2], [3]]"], of "[]"] by simp

text \<open>
  C20 (error). The first failed chunk makes the loop panic with its I/O error (the
  \<open>bytes.unwrap()\<close> of line 73), whatever came before it and whatever would follow.
\<close>

theorem drain_first_error_panics:
  "produces nxt s (map Inr bss @ Inl e # cs) \<Longrightarrow> drain nxt s acc = Some (Inl (Chunk_unwrap e))"
  by (simp add: drain_produces_eq drain_spec_error)

theorem drain_first_error_panics_witness:
  "drain list_next [Inr [1], Inl (Io_error ''corrupt deflate stream''), Inr [2]] [] =
     Some (Inl (Chunk_unwrap (Io_error ''corrupt deflate stream'')))"
  using drain_first_error_panics
    [OF produces_list_next [of "map Inr [[1]] @ Inl (Io_error ''corrupt deflate stream'') # [Inr [2]]"], of "[]"]
  by simp

text \<open>
  C21 (termination). If every step of the decoder stream decreases a natural-number
  measure of its state, the loop returns (with the bytes or with a panic).
\<close>

theorem drain_terminates:
  "stream_wf nxt \<mu> \<Longrightarrow> \<exists>r. drain nxt s acc = Some r"
proof -
  assume "stream_wf nxt \<mu>"
  from stream_wf_produces [OF this] obtain cs where "produces nxt s cs" by blast
  then show ?thesis by (auto dest: drain_produces_eq)
qed

theorem drain_terminates_witness:
  "\<exists>r. drain list_next [Inr [7], Inr [8, 9]] [] = Some r"
  by (rule drain_terminates [OF stream_wf_list_next])

end
