(* ===== verification/Decoder.thy ===== *)
theory Decoder
  imports Negotiator Stream
begin

text \<open>
  The streaming decode driver, \<open>Compression::decode\<close> (lines 48--117), and the
  middleware entry point \<open>handle\<close> (lines 122--137).
  \<^item> A response is its header map and its body bytes; its other fields are the record
    extension, which no step touches.
  \<^item> The four codec adapters of \<open>async_compression\<close> (\<open>GzipDecoder::new\<close>,
    \<open>DeflateDecoder::new\<close>, \<open>BrotliDecoder::new\<close>, \<open>ZstdDecoder::new\<close>) are the
    interface \<open>'s codec\<close>: a constructor per codec that builds a decoder stream over
    the body bytes, and the stream's \<open>next\<close>. The driver is proved against any codec;
    what it needs of one is the contract \<open>codec_inverts\<close> (the decoder of an
    encoding yields, without error, exactly the bytes its compressor was given).
  \<^item> \<open>decode_with\<close> is one arm of the match (lines 69--77): take the body, leaving
    \<open>Body::empty()\<close> in its place, drain the decoder built over it, store the result.
    \<open>decode_encoding\<close> is the match of lines 67--113, \<open>decode_chain\<close> the
    \<open>for\<close> loop of line 66, \<open>decode\<close> the whole function with its two early
    returns, its parse \<open>unwrap\<close> and its final header removal \<open>unwrap\<close>.
\<close>

record response =
  resp_headers :: header_map
  resp_body :: bytes

record 's codec =
  gzip_new :: "bytes \<Rightarrow> 's"
  deflate_new :: "bytes \<Rightarrow> 's"
  brotli_new :: "bytes \<Rightarrow> 's"
  zstd_new :: "bytes \<Rightarrow> 's"
  dec_next :: "'s stream_next"

definition decode_with ::
  "'s stream_next \<Rightarrow> (bytes \<Rightarrow> 's) \<Rightarrow> 'a response_scheme \<Rightarrow> 'a response_scheme outcome" where
  "decode_with nxt new res =
     (let body = resp_body res;
          res = res\<lparr>resp_body := []\<rparr>
      in out_bind (drain nxt (new body) [])
           (\<lambda>decoded_content. Some (Inr (res\<lparr>resp_body := decoded_content\<rparr>))))"

fun decode_encoding ::
  "'s codec \<Rightarrow> 'a response_scheme \<Rightarrow> encoding \<Rightarrow> 'a response_scheme outcome" where
  "decode_encoding cd res Gzip = decode_with (dec_next cd) (gzip_new cd) res"
| "decode_encoding cd res Deflate = decode_with (dec_next cd) (deflate_new cd) res"
| "decode_encoding cd res Brotli = decode_with (dec_next cd) (brotli_new cd) res"
| "decode_encoding cd res Zstd = decode_with (dec_next cd) (zstd_new cd) res"
| "decode_encoding cd res Identity = Some (Inr res)"

fun decode_chain ::
  "'s codec \<Rightarrow> 'a response_scheme \<Rightarrow> encoding list \<Rightarrow> 'a response_scheme outcome" where
  "decode_chain cd res [] = Some (Inr res)"
| "decode_chain cd res (e # es) = out_bind (decode_encoding cd res e) (\<lambda>res'. decode_chain cd res' es)"

definition decode :: "'s codec \<Rightarrow> 'a response_scheme \<Rightarrow> 'a response_scheme outcome" where
  "decode cd res =
     (case hm_get (resp_headers res) content_encoding of
        None \<Rightarrow> Some (Inr res)
      | Some hval \<Rightarrow>
          (case header_to_str hval of
             None \<Rightarrow> Some (Inr res)
           | Some s \<Rightarrow>
               (case parse_chain s of
                  Inl _ \<Rightarrow> Some (Inl Parse_unwrap)
                | Inr encodings \<Rightarrow>
                    out_bind (decode_chain cd res encodings)
                      (\<lambda>res'. case hm_remove (resp_headers res') content_encoding of
                                (None, _) \<Rightarrow> Some (Inl Remove_unwrap)
                              | (Some _, hs) \<Rightarrow> Some (Inr (res'\<lparr>resp_headers := hs\<rparr>))))))"

text \<open>
  The middleware value. \<open>Compression\<close> is a unit struct (lines 28--29); the
  associated \<open>Compression::new\<close> (lines 33--35) and the free function \<open>new\<close>
  (lines 21--23) both build it.
\<close>

datatype compression = Compression

definition compression_new :: compression where
  "compression_new = Compression"

definition new_fn :: compression where
  "new_fn = compression_new"

text \<open>
  \<open>handle\<close>: advertise (whose \<open>from_static\<close> may panic), run the rest of the
  pipeline (\<open>next.run(req, client).await?\<close>, an external function that returns a
  response or an exception, which \<open>?\<close> passes on), then \<open>self.decode\<close> the
  response. \<open>self\<close> carries no state: \<open>decode\<close> does not depend on it.
\<close>

definition handle ::
  "compression \<Rightarrow> 's codec \<Rightarrow> ('a request_scheme \<Rightarrow> 'x + 'b response_scheme) \<Rightarrow> 'a request_scheme
     \<Rightarrow> ('x + 'b response_scheme) outcome" where
  "handle self cd next req =
     out_bind (advertise req) (\<lambda>req'.
       case next req' of
         Inl ex \<Rightarrow> Some (Inr (Inl ex))
       | Inr res \<Rightarrow> out_map Inr (decode cd res))"

subsection \<open>The codec interface\<close>

text \<open>The constructor the driver selects for an encoding; \<open>identity\<close> has none.\<close>

fun decoder_for :: "'s codec \<Rightarrow> encoding \<Rightarrow> (bytes \<Rightarrow> 's) option" where
  "decoder_for cd Gzip = Some (gzip_new cd)"
| "decoder_for cd Deflate = Some (deflate_new cd)"
| "decoder_for cd Brotli = Some (brotli_new cd)"
| "decoder_for cd Zstd = Some (zstd_new cd)"
| "decoder_for cd Identity = None"

text \<open>
  The server side: \<open>compress e\<close> compresses with the codec of \<open>e\<close>, and a chain
  written \<open>e\<^sub>1, \<dots>, e\<^sub>n\<close> in the header was applied in that order.
\<close>

definition apply_encoding :: "(encoding \<Rightarrow> bytes \<Rightarrow> bytes) \<Rightarrow> encoding \<Rightarrow> bytes \<Rightarrow> bytes" where
  "apply_encoding compress e p = (if e = Identity then p else compress e p)"

definition encode_chain :: "(encoding \<Rightarrow> bytes \<Rightarrow> bytes) \<Rightarrow> encoding list \<Rightarrow> bytes \<Rightarrow> bytes" where
  "encode_chain compress es p = fold (apply_encoding compress) es p"

text \<open>
  The contract of the codec libraries: the decoder of each non-identity encoding, built
  over the output of the matching compressor, yields chunks without error whose
  concatenation is the original input, and then ends.
\<close>

definition codec_inverts :: "(encoding \<Rightarrow> bytes \<Rightarrow> bytes) \<Rightarrow> 's codec \<Rightarrow> bool" where
  "codec_inverts compress cd \<longleftrightarrow>
     (\<forall>e new p. decoder_for cd e = Some new \<longrightarrow>
        (\<exists>bss. produces (dec_next cd) (new (compress e p)) (map Inr bss) \<and> concat bss = p))"

subsection \<open>Lemmas of the driver\<close>

lemma decode_encoding_eq:
  "decode_encoding cd res e =
     (case decoder_for cd e of
        None \<Rightarrow> Some (Inr res)
      | Some new \<Rightarrow> decode_with (dec_next cd) new res)"
  by (cases e) simp_all

lemma decoder_for_None_iff: "decoder_for cd e = None \<longleftrightarrow> e = Identity"
  by (cases e) simp_all

lemma decode_with_produces:
  "produces nxt (new (resp_body res)) cs \<Longrightarrow>
   decode_with nxt new res =
     (case drain_spec cs [] of
        Inl p \<Rightarrow> Some (Inl p)
      | Inr bs \<Rightarrow> Some (Inr (res\<lparr>resp_body := bs\<rparr>)))"
  by (simp add: decode_with_def drain_produces_eq split: sum.split)

lemma decode_with_frame:
  "decode_with nxt new res = Some (Inr res') \<Longrightarrow>
   resp_headers res' = resp_headers res \<and> response.more res' = response.more res"
  by (auto simp: decode_with_def out_bind_Inr_iff)

lemma decode_encoding_frame:
  "decode_encoding cd res e = Some (Inr res') \<Longrightarrow>
   resp_headers res' = resp_headers res \<and> response.more res' = response.more res"
  by (cases e) (auto dest: decode_with_frame)

lemma decode_chain_frame:
  "decode_chain cd res es = Some (Inr res') \<Longrightarrow>
   resp_headers res' = resp_headers res \<and> response.more res' = response.more res"
proof (induction es arbitrary: res)
  case Nil
  then show ?case by simp
next
  case (Cons e es)
  from Cons.prems obtain r1 where
    r1: "decode_encoding cd res e = Some (Inr r1)" and rest: "decode_chain cd r1 es = Some (Inr res')"
    by (auto simp: out_bind_Inr_iff)
  from rest have "resp_headers res' = resp_headers r1 \<and> response.more res' = response.more r1"
    by (rule Cons.IH)
  with decode_encoding_frame [OF r1] show ?case by simp
qed

lemma decode_with_returns:
  "stream_wf nxt \<mu> \<Longrightarrow> decode_with nxt new res \<noteq> None"
proof -
  assume wf: "stream_wf nxt \<mu>"
  from stream_wf_produces [OF wf] obtain cs where "produces nxt (new (resp_body res)) cs"
    by blast
  then show ?thesis by (simp add: decode_with_produces split: sum.split)
qed

lemma decode_chain_returns:
  "stream_wf (dec_next cd) \<mu> \<Longrightarrow> decode_chain cd res es \<noteq> None"
proof (induction es arbitrary: res)
  case Nil
  then show ?case by simp
next
  case (Cons e es)
  have "decode_encoding cd res e \<noteq> None"
  proof (cases "decoder_for cd e")
    case None
    then show ?thesis by (simp add: decode_encoding_eq)
  next
    case (Some new)
    then show ?thesis
      using decode_with_returns [OF Cons.prems, of new res] by (simp add: decode_encoding_eq)
  qed
  then show ?case
    by (simp only: decode_chain.simps) (rule out_bind_returns, assumption, rule Cons.IH [OF Cons.prems])
qed

lemma decode_with_panic:
  "decode_with nxt new res = Some (Inl p) \<Longrightarrow> \<exists>e. p = Chunk_unwrap e"
  using drain_result_panic [of nxt "new (resp_body res)" "[]"]
  by (auto simp: decode_with_def out_bind_def split: option.splits sum.splits)

lemma decode_chain_panic:
  "decode_chain cd res es = Some (Inl p) \<Longrightarrow> \<exists>e. p = Chunk_unwrap e"
proof (induction es arbitrary: res)
  case Nil
  then show ?case by simp
next
  case (Cons e es)
  show ?case
  proof (cases "decode_encoding cd res e")
    case None
    with Cons.prems show ?thesis by simp
  next
    case (Some r)
    with Cons show ?thesis
      by (cases r; cases e) (auto dest: decode_with_panic)
  qed
qed

lemma apply_encoding_Identity [simp]: "apply_encoding compress Identity p = p"
  by (simp add: apply_encoding_def)

lemma encode_chain_Nil [simp]: "encode_chain compress [] p = p"
  by (simp add: encode_chain_def)

lemma encode_chain_snoc [simp]:
  "encode_chain compress (es @ [e]) p = apply_encoding compress e (encode_chain compress es p)"
  by (simp add: encode_chain_def)

lemma decode_encoding_inverts:
  assumes inv: "codec_inverts compress cd"
    and body: "resp_body res = apply_encoding compress e b"
  shows "decode_encoding cd res e = Some (Inr (res\<lparr>resp_body := b\<rparr>))"
proof (cases "decoder_for cd e")
  case None
  then have "e = Identity" by (simp add: decoder_for_None_iff)
  with body show ?thesis by simp
next
  case (Some new)
  then have "e \<noteq> Identity" by (auto simp: decoder_for_None_iff [symmetric])
  with body have "resp_body res = compress e b" by (simp add: apply_encoding_def)
  moreover from inv Some obtain bss where
    "produces (dec_next cd) (new (compress e b)) (map Inr bss)" and "concat bss = b"
    unfolding codec_inverts_def by blast
  ultimately show ?thesis
    using Some by (simp add: decode_encoding_eq decode_with_produces)
qed

lemma decode_chain_inverts:
  "codec_inverts compress cd \<Longrightarrow> resp_body res = encode_chain compress es p \<Longrightarrow>
   decode_chain cd res (rev es) = Some (Inr (res\<lparr>resp_body := p\<rparr>))"
proof (induction es arbitrary: res rule: rev_induct)
  case Nil
  then show ?case by simp
next
  case (snoc e es)
  from snoc.prems have "decode_encoding cd res e =
      Some (Inr (res\<lparr>resp_body := encode_chain compress es p\<rparr>))"
    by (simp add: decode_encoding_inverts)
  moreover have "decode_chain cd (res\<lparr>resp_body := encode_chain compress es p\<rparr>) (rev es) =
      Some (Inr (res\<lparr>resp_body := p\<rparr>))"
    using snoc.IH [OF snoc.prems(1)] by simp
  ultimately show ?case by simp
qed

lemma decode_parsed:
  assumes get: "hm_get (resp_headers res) content_encoding = Some v"
    and str: "header_to_str v = Some s"
    and parsed: "parse_chain s = Inr es"
  shows "decode cd res =
    out_bind (decode_chain cd res es)
      (\<lambda>res'. Some (Inr (res'\<lparr>resp_headers := snd (hm_remove (resp_headers res) content_encoding)\<rparr>)))"
proof (cases "decode_chain cd res es")
  case None
  with get str parsed show ?thesis by (simp add: decode_def)
next
  case (Some r)
  show ?thesis
  proof (cases r)
    case (Inl p)
    with Some get str parsed show ?thesis by (simp add: decode_def)
  next
    case (Inr res')
    with Some have "resp_headers res' = resp_headers res"
      by (auto dest: decode_chain_frame)
    with Some Inr get str parsed show ?thesis
      by (simp add: decode_def hm_remove_def)
  qed
qed

lemma decode_cases:
  obtains (passed) "decode cd res = Some (Inr res)"
  | (rejected) "decode cd res = Some (Inl Parse_unwrap)"
  | (decoded) es v where "hm_get (resp_headers res) content_encoding = Some v"
      and "decode cd res = out_bind (decode_chain cd res es)
      (\<lambda>res'. Some (Inr (res'\<lparr>resp_headers := snd (hm_remove (resp_headers res) content_encoding)\<rparr>)))"
proof (cases "hm_get (resp_headers res) content_encoding")
  case None
  with passed show ?thesis by (simp add: decode_def)
next
  case (Some v)
  show ?thesis
  proof (cases "header_to_str v")
    case None
    with Some passed show ?thesis by (simp add: decode_def)
  next
    case str: (Some s)
    show ?thesis
    proof (cases "parse_chain s")
      case (Inl u)
      with Some str rejected show ?thesis by (simp add: decode_def)
    next
      case (Inr es)
      from Some decode_parsed [OF Some str Inr, of cd] show ?thesis by (rule decoded)
    qed
  qed
qed

text \<open>The frame of \<open>decode\<close>: at most the body and the \<open>Content-Encoding\<close> lines change.\<close>

lemma decode_frame:
  assumes ret: "decode cd res = Some (Inr res')"
  shows "res' = res \<or>
    (hm_get (resp_headers res) content_encoding \<noteq> None \<and>
     res' = res\<lparr>resp_headers := snd (hm_remove (resp_headers res) content_encoding),
                resp_body := resp_body res'\<rparr>)"
proof (cases rule: decode_cases [of cd res])
  case passed
  with ret show ?thesis by simp
next
  case rejected
  with ret show ?thesis by simp
next
  case (decoded es v)
  with ret obtain r1 where chain: "decode_chain cd res es = Some (Inr r1)"
    and r': "res' = r1\<lparr>resp_headers := snd (hm_remove (resp_headers res) content_encoding)\<rparr>"
    by (auto simp: out_bind_Inr_iff)
  from chain have "resp_headers r1 = resp_headers res \<and> response.more r1 = response.more res"
    by (rule decode_chain_frame)
  with r' decoded(1) show ?thesis by simp
qed

lemma handle_eq:
  "handle self cd next req =
     (case next (with_accept_encoding supported_encodings req) of
        Inl ex \<Rightarrow> Some (Inr (Inl ex))
      | Inr res \<Rightarrow> out_map Inr (decode cd res))"
  by (simp add: handle_def advertise_eq)

text \<open>
  C6 (equivalence). \<open>identity\<close> anywhere in a chain is a pure no-op: decoding a chain
  is decoding the same chain with every \<open>identity\<close> entry removed (the match arm of
  line 112 does nothing, and the loop moves on).
\<close>

theorem decode_chain_identity_noop:
  "decode_chain cd res es = decode_chain cd res (removeAll Identity es)"
  by (induction es arbitrary: res) auto

end
