(* ===== verification/Task.thy ===== *)
theory Task
  imports Decoder
begin

text \<open>
  \<open>Compression::decode\<close> is an \<open>async fn\<close>; its future suspends only at
  \<open>decoded_stream.next().await\<close> (lines 72, 83, 94, 105). The state of the future at a
  suspension point is the record \<open>task\<close>: the response it holds, the encodings the
  \<open>for\<close> loop has still to visit, and the phase, \<open>Draining st acc\<close> (waiting on the
  decoder stream in state \<open>st\<close> with the bytes \<open>acc\<close> collected so far), or the end of
  the future (\<open>Finished\<close>, or \<open>Panicked\<close> by an \<open>unwrap\<close>).
  \<^item> \<open>advance\<close> is the code that runs without yielding from the head of the loop to the
    next \<open>await\<close>: an \<open>identity\<close> entry is skipped (line 112); any other takes the
    body, leaving \<open>Body::empty()\<close>, and builds its decoder (lines 69--71), where the
    future suspends; with the chain exhausted, the header removal of line 116 ends it.
  \<^item> \<open>task_start\<close> is the first poll: lines 48--64, then \<open>advance\<close> to the first
    \<open>await\<close> or to the end.
  \<^item> \<open>task_step\<close> is one later poll, resuming at the \<open>await\<close>: the decoder yields one
    item; a chunk is appended (lines 73--75) and the future waits again; a failed chunk
    panics; the end of the stream stores the vector as the body (line 77) and the loop
    \<open>advance\<close>s, within the same poll.
  The model takes the decoder stream to be pending once before each item (the spec's
  ``each chunk yield is a suspension point''); a stream that is ready at once lets the
  future run on within the same poll, so the poll counts below are then upper bounds.
  The functional \<open>decode\<close> is the specification: every step keeps \<open>task_result\<close>, the
  value \<open>decode\<close> would compute from the current state, which makes the machine a
  refinement of \<open>decode\<close>; at every suspension point the response has its original
  headers and an empty body; and the number of polls is counted exactly
  (\<open>drain_polls\<close>, \<open>chain_polls\<close>, \<open>advance_polls\<close>).
\<close>

datatype 's phase =
    Draining 's bytes
  | Finished
  | Panicked panic

record ('s, 'a) task =
  tk_res :: "'a response_scheme"
  tk_todo :: "encoding list"
  tk_phase :: "'s phase"

fun advance :: "'s codec \<Rightarrow> 'a response_scheme \<Rightarrow> encoding list \<Rightarrow> ('s, 'a) task" where
  "advance cd res [] =
     (case hm_remove (resp_headers res) content_encoding of
        (None, _) \<Rightarrow> \<lparr>tk_res = res, tk_todo = [], tk_phase = Panicked Remove_unwrap\<rparr>
      | (Some _, hs) \<Rightarrow> \<lparr>tk_res = res\<lparr>resp_headers := hs\<rparr>, tk_todo = [], tk_phase = Finished\<rparr>)"
| "advance cd res (e # es) =
     (case decoder_for cd e of
        None \<Rightarrow> advance cd res es
      | Some new \<Rightarrow>
          \<lparr>tk_res = res\<lparr>resp_body := []\<rparr>, tk_todo = es, tk_phase = Draining (new (resp_body res)) []\<rparr>)"

definition task_start :: "'s codec \<Rightarrow> 'a response_scheme \<Rightarrow> ('s, 'a) task" where
  "task_start cd res =
     (case hm_get (resp_headers res) content_encoding of
        None \<Rightarrow> \<lparr>tk_res = res, tk_todo = [], tk_phase = Finished\<rparr>
      | Some hval \<Rightarrow>
          (case header_to_str hval of
             None \<Rightarrow> \<lparr>tk_res = res, tk_todo = [], tk_phase = Finished\<rparr>
           | Some s \<Rightarrow>
               (case parse_chain s of
                  Inl _ \<Rightarrow> \<lparr>tk_res = res, tk_todo = [], tk_phase = Panicked Parse_unwrap\<rparr>
                | Inr encodings \<Rightarrow> advance cd res encodings)))"

definition task_step :: "'s codec \<Rightarrow> ('s, 'a) task \<Rightarrow> ('s, 'a) task option" where
  "task_step cd t =
     (case tk_phase t of
        Draining st acc \<Rightarrow>
          (case dec_next cd st of
             None \<Rightarrow> Some (advance cd ((tk_res t)\<lparr>resp_body := acc\<rparr>) (tk_todo t))
           | Some (st', Inl e) \<Rightarrow> Some (t\<lparr>tk_phase := Panicked (Chunk_unwrap e)\<rparr>)
           | Some (st', Inr bs) \<Rightarrow> Some (t\<lparr>tk_phase := Draining st' (push_bytes acc bs)\<rparr>))
      | Finished \<Rightarrow> None
      | Panicked _ \<Rightarrow> None)"

text \<open>\<open>task_steps cd t t'\<close>: the task runs from \<open>t\<close> to \<open>t'\<close> in some number of polls.\<close>

definition task_steps :: "'s codec \<Rightarrow> ('s, 'a) task \<Rightarrow> ('s, 'a) task \<Rightarrow> bool" where
  "task_steps cd = (\<lambda>t t'. task_step cd t = Some t')\<^sup>*\<^sup>*"

text \<open>The result \<open>decode\<close> computes from a state of the task: the specification of the machine.\<close>

definition finish_decode :: "'a response_scheme \<Rightarrow> 'a response_scheme outcome" where
  "finish_decode res' =
     (case hm_remove (resp_headers res') content_encoding of
        (None, _) \<Rightarrow> Some (Inl Remove_unwrap)
      | (Some _, hs) \<Rightarrow> Some (Inr (res'\<lparr>resp_headers := hs\<rparr>)))"

definition task_result :: "'s codec \<Rightarrow> ('s, 'a) task \<Rightarrow> 'a response_scheme outcome" where
  "task_result cd t =
     (case tk_phase t of
        Draining st acc \<Rightarrow>
          out_bind (drain (dec_next cd) st acc)
            (\<lambda>bs. out_bind (decode_chain cd ((tk_res t)\<lparr>resp_body := bs\<rparr>) (tk_todo t)) finish_decode)
      | Finished \<Rightarrow> Some (Inr (tk_res t))
      | Panicked p \<Rightarrow> Some (Inl p))"

definition terminal :: "('s, 'a) task \<Rightarrow> bool" where
  "terminal t \<longleftrightarrow> tk_phase t = Finished \<or> (\<exists>p. tk_phase t = Panicked p)"

text \<open>
  The executor's view of one task: after the first poll, poll it up to \<open>n\<close> more times,
  stopping once it has finished (a \<open>Poll::Ready\<close>) or panicked.
\<close>

fun run_task :: "nat \<Rightarrow> 's codec \<Rightarrow> ('s, 'a) task \<Rightarrow> ('s, 'a) task" where
  "run_task 0 cd t = t"
| "run_task (Suc n) cd t = (case task_step cd t of None \<Rightarrow> t | Some t' \<Rightarrow> run_task n cd t')"

text \<open>
  What holds of the response at every state of the task but the last: the headers are
  those it arrived with, the extension fields are untouched, and while a decoder is
  being polled the body is \<open>Body::empty()\<close>, the value \<open>mem::replace\<close> leaves behind.
\<close>

definition task_inv :: "'a response_scheme \<Rightarrow> ('s, 'a) task \<Rightarrow> bool" where
  "task_inv res t \<longleftrightarrow>
     response.more (tk_res t) = response.more res \<and>
     (tk_phase t \<noteq> Finished \<longrightarrow> resp_headers (tk_res t) = resp_headers res) \<and>
     (case tk_phase t of Draining _ _ \<Rightarrow> resp_body (tk_res t) = [] | _ \<Rightarrow> True)"

text \<open>
  The polls the loop takes from its head with the encodings \<open>es\<close> and the body \<open>b\<close>,
  and the body it leaves: for each codec one poll per chunk of its stream and one for
  the end of the stream; skipping \<open>identity\<close>, building a decoder and the final removal
  run within a poll and cost none.
\<close>

inductive chain_polls :: "'s codec \<Rightarrow> bytes \<Rightarrow> encoding list \<Rightarrow> nat \<Rightarrow> bytes \<Rightarrow> bool" for cd where
  polls_end: "chain_polls cd b [] 0 b"
| polls_skip: "decoder_for cd e = None \<Longrightarrow> chain_polls cd b es n b' \<Longrightarrow>
    chain_polls cd b (e # es) n b'"
| polls_codec: "decoder_for cd e = Some new \<Longrightarrow> produces (dec_next cd) (new b) (map Inr bss) \<Longrightarrow>
    chain_polls cd (concat bss) es n b' \<Longrightarrow> chain_polls cd b (e # es) (Suc (length bss) + n) b'"

subsection \<open>Simulation: every step keeps the result\<close>

lemma task_result_Finished [simp]:
  "tk_phase t = Finished \<Longrightarrow> task_result cd t = Some (Inr (tk_res t))"
  by (simp add: task_result_def)

lemma task_result_Panicked [simp]:
  "tk_phase t = Panicked p \<Longrightarrow> task_result cd t = Some (Inl p)"
  by (simp add: task_result_def)

lemma task_step_None_iff: "task_step cd t = None \<longleftrightarrow> terminal t"
  by (auto simp: task_step_def terminal_def split: phase.splits option.splits prod.splits
      sum.splits)

lemma advance_result:
  "task_result cd (advance cd res es) = out_bind (decode_chain cd res es) finish_decode"
proof (induction es arbitrary: res)
  case Nil
  then show ?case by (auto simp: finish_decode_def split: prod.splits option.splits)
next
  case (Cons e es)
  show ?case
  proof (cases "decoder_for cd e")
    case None
    with Cons.IH show ?thesis by (simp add: decode_encoding_eq)
  next
    case (Some new)
    then show ?thesis
      by (simp add: task_result_def decode_encoding_eq decode_with_def out_bind_assoc)
  qed
qed

lemma task_step_result:
  assumes "task_step cd t = Some t'"
  shows "task_result cd t' = task_result cd t"
proof (cases "tk_phase t")
  case (Draining st acc)
  show ?thesis
  proof (cases "dec_next cd st")
    case None
    have "task_result cd t = out_bind (decode_chain cd ((tk_res t)\<lparr>resp_body := acc\<rparr>) (tk_todo t)) finish_decode"
      unfolding task_result_def using Draining None by (subst drain_unfold) simp
    with Draining None assms show ?thesis by (auto simp: task_step_def advance_result)
  next
    case (Some a)
    with Draining assms show ?thesis
      by (subst (asm) task_step_def, unfold task_result_def, subst (2) drain_unfold)
         (auto split: sum.splits prod.splits)
  qed
qed (use assms in \<open>simp_all add: task_step_def\<close>)

lemma task_steps_result:
  "task_steps cd t t' \<Longrightarrow> task_result cd t' = task_result cd t"
  unfolding task_steps_def
  by (induction rule: rtranclp_induct) (auto dest: task_step_result)

lemma task_start_result: "task_result cd (task_start cd res) = decode cd res"
  by (simp add: task_start_def decode_def advance_result finish_decode_def [abs_def]
      split: option.split sum.split)

lemma task_steps_refl [simp]: "task_steps cd t t"
  by (simp add: task_steps_def)

lemma task_steps_step:
  "task_step cd t = Some t1 \<Longrightarrow> task_steps cd t1 t' \<Longrightarrow> task_steps cd t t'"
  unfolding task_steps_def by (rule converse_rtranclp_into_rtranclp) simp_all

lemma task_steps_trans:
  "task_steps cd t t1 \<Longrightarrow> task_steps cd t1 t' \<Longrightarrow> task_steps cd t t'"
  unfolding task_steps_def by (rule rtranclp_trans)

lemma task_steps_decode:
  "task_steps cd (task_start cd res) t \<Longrightarrow> task_result cd t = decode cd res"
  by (simp only: task_steps_result task_start_result)

subsection \<open>The poll loop\<close>

lemma task_steps_run: "task_steps cd t (run_task n cd t)"
  by (induction n cd t rule: run_task.induct)
     (auto intro: task_steps_step split: option.split)

lemma run_task_stopped: "task_step cd t = None \<Longrightarrow> run_task n cd t = t"
  by (cases n) simp_all

lemma run_task_add: "run_task (m + k) cd t = run_task k cd (run_task m cd t)"
proof (induction m cd t rule: run_task.induct)
  case (2 n cd t)
  then show ?case
    by (cases "task_step cd t") (simp_all add: run_task_stopped)
qed simp

lemma task_steps_run_terminal:
  "task_steps cd t t' \<Longrightarrow> terminal t' \<Longrightarrow> \<exists>n. run_task n cd t = t'"
  unfolding task_steps_def
proof (induction rule: converse_rtranclp_induct)
  case base
  show ?case by (rule exI [of _ 0]) simp
next
  case (step t t1)
  then obtain n where "run_task n cd t1 = t'" by (auto simp: task_steps_def)
  with step.hyps(1) show ?case by (intro exI [of _ "Suc n"]) simp
qed

subsection \<open>The invariant\<close>

lemma advance_inv:
  "response.more res = response.more res0 \<Longrightarrow> resp_headers res = resp_headers res0 \<Longrightarrow>
   task_inv res0 (advance cd res es)"
proof (induction es arbitrary: res)
  case Nil
  then show ?case by (auto simp: task_inv_def split: prod.splits option.splits)
next
  case (Cons e es)
  then show ?case by (cases "decoder_for cd e") (simp_all add: task_inv_def)
qed

lemma task_inv_start: "task_inv res (task_start cd res)"
  unfolding task_start_def
  by (simp add: advance_inv split: option.split sum.split) (simp add: task_inv_def)

lemma task_inv_step:
  assumes inv: "task_inv res t" and step: "task_step cd t = Some t'"
  shows "task_inv res t'"
proof (cases "tk_phase t")
  case (Draining st acc)
  show ?thesis
  proof (cases "dec_next cd st")
    case None
    from inv have "response.more (tk_res t) = response.more res"
      and "resp_headers (tk_res t) = resp_headers res"
      using Draining by (simp_all add: task_inv_def)
    with Draining None step show ?thesis by (auto simp: task_step_def intro!: advance_inv)
  next
    case (Some a)
    with Draining inv step show ?thesis
      by (auto simp: task_inv_def task_step_def split: prod.splits sum.splits)
  qed
qed (use step in \<open>simp_all add: task_step_def\<close>)

lemma task_inv_steps: "task_steps cd (task_start cd res) t \<Longrightarrow> task_inv res t"
  unfolding task_steps_def
  by (induction rule: rtranclp_induct) (auto intro: task_inv_start task_inv_step)

subsection \<open>Progress\<close>

text \<open>
  A draining task whose stream returns runs, poll by poll, to the head of the loop with
  the collected bytes as its body, or to the panic of a failed chunk.
\<close>

lemma drain_task_steps:
  fixes t :: "('s, 'a) task"
  assumes ret: "drain (dec_next cd) st acc = Some r" and ph: "tk_phase t = Draining st acc"
  shows "\<exists>t'. task_steps cd t t' \<and>
    (case r of
       Inr bs \<Rightarrow> t' = advance cd ((tk_res t)\<lparr>resp_body := bs\<rparr>) (tk_todo t)
     | Inl p \<Rightarrow> tk_phase t' = Panicked p)"
proof -
  let ?Q = "\<lambda>st acc r. \<forall>t :: ('s, 'a) task. tk_phase t = Draining st acc \<longrightarrow> (\<exists>t'. task_steps cd t t' \<and>
    (case r of
       Inr bs \<Rightarrow> t' = advance cd ((tk_res t)\<lparr>resp_body := bs\<rparr>) (tk_todo t)
     | Inl p \<Rightarrow> tk_phase t' = Panicked p))"
  have "dec_next cd = dec_next cd \<longrightarrow> ?Q st acc r"
  proof (rule drain.raw_induct [where P = "\<lambda>nxt st acc r. nxt = dec_next cd \<longrightarrow> ?Q st acc r", OF _ ret])
    fix f nxt st acc r
    assume IH: "\<And>nxt st acc y. f nxt st acc = Some y \<Longrightarrow> nxt = dec_next cd \<longrightarrow> ?Q st acc y"
      and eq: "(case nxt st of None \<Rightarrow> Some (Inr acc)
        | Some (s', Inl e) \<Rightarrow> Some (Inl (Chunk_unwrap e))
        | Some (s', Inr bs) \<Rightarrow> f nxt s' (push_bytes acc bs)) = Some r"
    show "nxt = dec_next cd \<longrightarrow> ?Q st acc r"
    proof (intro impI allI)
      fix t :: "('s, 'a) task"
      assume nxt: "nxt = dec_next cd" and ph: "tk_phase t = Draining st acc"
      show "\<exists>t'. task_steps cd t t' \<and>
        (case r of
           Inr bs \<Rightarrow> t' = advance cd ((tk_res t)\<lparr>resp_body := bs\<rparr>) (tk_todo t)
         | Inl p \<Rightarrow> tk_phase t' = Panicked p)"
      proof (cases "nxt st")
        case None
        with eq nxt ph show ?thesis
          by (intro exI [of _ "advance cd ((tk_res t)\<lparr>resp_body := acc\<rparr>) (tk_todo t)"])
             (auto simp: task_step_def intro: task_steps_step)
      next
        case (Some a)
        then obtain st' c where a: "nxt st = Some (st', c)" by (cases a) auto
        show ?thesis
        proof (cases c)
          case (Inl e)
          with a eq nxt ph show ?thesis
            by (intro exI [of _ "t\<lparr>tk_phase := Panicked (Chunk_unwrap e)\<rparr>"])
               (auto simp: task_step_def intro: task_steps_step)
        next
          case (Inr bs)
          let ?t1 = "t\<lparr>tk_phase := Draining st' (push_bytes acc bs)\<rparr>"
          have step: "task_step cd t = Some ?t1"
            using a Inr nxt ph by (simp add: task_step_def)
          from a Inr eq have "f nxt st' (push_bytes acc bs) = Some r" by simp
          with IH nxt have Q: "?Q st' (push_bytes acc bs) r" by blast
          have "tk_phase ?t1 = Draining st' (push_bytes acc bs)" by simp
          from Q [rule_format, OF this] obtain t' where steps: "task_steps cd ?t1 t'" and res: "case r of
              Inr bs \<Rightarrow> t' = advance cd ((tk_res ?t1)\<lparr>resp_body := bs\<rparr>) (tk_todo ?t1)
            | Inl p \<Rightarrow> tk_phase t' = Panicked p"
            by blast
          from step steps have "task_steps cd t t'" by (rule task_steps_step)
          with res show ?thesis by (auto split: sum.splits)
        qed
      qed
    qed
  qed
  with ph show ?thesis by blast
qed

lemma terminal_task_steps: "terminal t \<Longrightarrow> \<exists>t'. task_steps cd t t' \<and> terminal t'"
  by (blast intro: task_steps_refl)

lemma advance_progress:
  fixes cd :: "'s codec" and res :: "'a response_scheme"
  shows "task_result cd (advance cd res es) \<noteq> None \<Longrightarrow>
    \<exists>t'. task_steps cd (advance cd res es) t' \<and> terminal t'"
proof (induction es arbitrary: res)
  case Nil
  have "terminal (advance cd res [])"
    by (auto simp: terminal_def split: prod.splits option.splits)
  then show ?case by (rule terminal_task_steps)
next
  case (Cons e es)
  show ?case
  proof (cases "decoder_for cd e")
    case None
    with Cons show ?thesis by simp
  next
    case (Some new)
    let ?t1 = "\<lparr>tk_res = res\<lparr>resp_body := []\<rparr>, tk_todo = es,
                tk_phase = Draining (new (resp_body res)) []\<rparr> :: ('s, 'a) task"
    have t1: "advance cd res (e # es) = ?t1" using Some by simp
    from Cons.prems [unfolded t1] obtain r where dr: "drain (dec_next cd) (new (resp_body res)) [] = Some r"
      by (auto simp: task_result_def out_bind_def split: option.splits)
    from drain_task_steps [OF dr, of ?t1] obtain t2 where steps: "task_steps cd ?t1 t2"
      and t2: "case r of Inr bs \<Rightarrow> t2 = advance cd (res\<lparr>resp_body := bs\<rparr>) es
               | Inl p \<Rightarrow> tk_phase t2 = Panicked p"
      by (cases r) auto
    show ?thesis
    proof (cases r)
      case (Inl p)
      with t2 have "terminal t2" by (simp add: terminal_def)
      with steps show ?thesis unfolding t1 by blast
    next
      case (Inr bs)
      with t2 have t2': "t2 = advance cd (res\<lparr>resp_body := bs\<rparr>) es" by simp
      from Cons.prems [unfolded t1] have "task_result cd t2 \<noteq> None"
        unfolding task_steps_result [OF steps] .
      with Cons.IH [of "res\<lparr>resp_body := bs\<rparr>"] t2' obtain t' where "task_steps cd t2 t'" "terminal t'"
        by auto
      with steps show ?thesis unfolding t1 by (blast intro: task_steps_trans)
    qed
  qed
qed

lemma task_start_progress:
  fixes cd :: "'s codec" and res :: "'a response_scheme"
  assumes ret: "decode cd res \<noteq> None"
  shows "\<exists>t :: ('s, 'a) task. task_steps cd (task_start cd res) t \<and> terminal t"
proof -
  have "terminal (task_start cd res :: ('s, 'a) task) \<or> (\<exists>es. task_start cd res = advance cd res es)"
    by (auto simp: task_start_def terminal_def split: option.splits sum.splits)
  then show ?thesis
  proof
    assume "\<exists>es. task_start cd res = advance cd res es"
    then obtain es where es: "task_start cd res = advance cd res es" ..
    from ret have "task_result cd (advance cd res es) \<noteq> None"
      unfolding es [symmetric] task_start_result .
    then show ?thesis unfolding es by (rule advance_progress)
  qed (rule terminal_task_steps)
qed

subsection \<open>The number of polls\<close>

text \<open>
  One poll per chunk: on a stream that yields \<open>k\<close> good chunks and ends, a draining
  task has stored the body and run on to the next suspension point (or the end) after
  exactly \<open>k + 1\<close> polls, and every poll before that leaves it waiting on the same
  stream with the chunks read so far.
\<close>

lemma drain_polls:
  assumes "produces (dec_next cd) st (map Inr bss)" and "tk_phase t = Draining st acc"
  shows "run_task (Suc (length bss)) cd t =
           advance cd ((tk_res t)\<lparr>resp_body := acc @ concat bss\<rparr>) (tk_todo t) \<and>
         (\<forall>m \<le> length bss. \<exists>st'.
            run_task m cd t = t\<lparr>tk_phase := Draining st' (acc @ concat (take m bss))\<rparr>)"
  using assms
proof (induction bss arbitrary: st acc t)
  case Nil
  then have "dec_next cd st = None" by (auto elim: produces_NilE)
  with Nil.prems(2) show ?case
    by (auto simp: task_step_def intro: exI [of _ st])
next
  case (Cons bs bss)
  from Cons.prems(1) obtain st1 where nx: "dec_next cd st = Some (st1, Inr bs)"
    and pr: "produces (dec_next cd) st1 (map Inr bss)"
    by (auto elim: produces_ConsE)
  let ?t1 = "t\<lparr>tk_phase := Draining st1 (acc @ bs)\<rparr>"
  have step: "task_step cd t = Some ?t1"
    using Cons.prems(2) nx by (simp add: task_step_def)
  have IH: "run_task (Suc (length bss)) cd ?t1 =
             advance cd ((tk_res ?t1)\<lparr>resp_body := (acc @ bs) @ concat bss\<rparr>) (tk_todo ?t1) \<and>
            (\<forall>m \<le> length bss. \<exists>st'.
               run_task m cd ?t1 = ?t1\<lparr>tk_phase := Draining st' ((acc @ bs) @ concat (take m bss))\<rparr>)"
    by (rule Cons.IH [OF pr]) simp
  have "\<exists>st'. run_task m cd t = t\<lparr>tk_phase := Draining st' (acc @ concat (take m (bs # bss)))\<rparr>"
    if "m \<le> length (bs # bss)" for m
  proof (cases m)
    case 0
    with Cons.prems(2) show ?thesis by (intro exI [of _ st]) simp
  next
    case (Suc m')
    with that IH obtain st' where
      "run_task m' cd ?t1 = ?t1\<lparr>tk_phase := Draining st' ((acc @ bs) @ concat (take m' bss))\<rparr>"
      by auto
    with Suc step show ?thesis by (intro exI [of _ st']) simp
  qed
  with IH step show ?case by simp
qed

text \<open>
  The whole loop: from its head with the encodings \<open>es\<close>, a chain whose streams all
  end well finishes after exactly the polls \<open>chain_polls\<close> counts, and is pending
  (not terminal) after every smaller number.
\<close>

lemma advance_polls:
  fixes cd :: "'s codec" and res :: "'a response_scheme"
  assumes "chain_polls cd b es n b'" and "resp_body res = b"
    and "hm_remove (resp_headers res) content_encoding = (Some old, hs)"
  shows "run_task n cd (advance cd res es) =
           \<lparr>tk_res = res\<lparr>resp_headers := hs, resp_body := b'\<rparr>, tk_todo = [], tk_phase = Finished\<rparr> \<and>
         (\<forall>m < n. \<not> terminal (run_task m cd (advance cd res es)))"
  using assms
proof (induction arbitrary: res rule: chain_polls.induct)
  case (polls_end b)
  then show ?case by simp
next
  case (polls_skip e b es n b')
  then show ?case by simp
next
  case (polls_codec e new b bss es n b')
  let ?t1 = "\<lparr>tk_res = res\<lparr>resp_body := []\<rparr>, tk_todo = es, tk_phase = Draining (new b) []\<rparr> :: ('s, 'a) task"
  let ?res2 = "res\<lparr>resp_body := concat bss\<rparr>"
  have t1: "advance cd res (e # es) = ?t1"
    using polls_codec.hyps(1) polls_codec.prems(1) by simp
  have ph1: "tk_phase ?t1 = Draining (new b) []" by simp
  note dp = drain_polls [OF polls_codec.hyps(2) ph1]
  have d: "run_task (Suc (length bss)) cd ?t1 = advance cd ?res2 es" using dp by simp
  have dmid: "\<forall>m \<le> length bss. \<exists>st'.
      run_task m cd ?t1 = ?t1\<lparr>tk_phase := Draining st' ([] @ concat (take m bss))\<rparr>"
    using dp by blast
  from polls_codec.IH [of ?res2] polls_codec.prems(2)
  have IH: "run_task n cd (advance cd ?res2 es) =
        \<lparr>tk_res = res\<lparr>resp_headers := hs, resp_body := b'\<rparr>, tk_todo = [], tk_phase = Finished\<rparr>"
    and pend: "\<forall>m < n. \<not> terminal (run_task m cd (advance cd ?res2 es))"
    by simp_all
  have final: "run_task (Suc (length bss) + n) cd ?t1 =
      \<lparr>tk_res = res\<lparr>resp_headers := hs, resp_body := b'\<rparr>, tk_todo = [], tk_phase = Finished\<rparr>"
    by (simp only: run_task_add d IH)
  have "\<not> terminal (run_task m cd ?t1)" if "m < Suc (length bss) + n" for m
  proof (cases "m \<le> length bss")
    case True
    with dmid obtain st' where
      "run_task m cd ?t1 = ?t1\<lparr>tk_phase := Draining st' ([] @ concat (take m bss))\<rparr>" by blast
    then show ?thesis by (simp add: terminal_def)
  next
    case False
    then obtain j where j: "m = Suc (length bss) + j" by (metis le_Suc_ex not_less_eq_eq)
    with that have "j < n" by simp
    moreover have "run_task m cd ?t1 = run_task j cd (advance cd ?res2 es)"
      by (simp only: j run_task_add d)
    ultimately show ?thesis using pend by simp
  qed
  with final show ?case unfolding t1 by blast
qed

end
