(* ===== verification/Spec2Isabelle.thy ===== *)
theory Spec2Isabelle
  imports Task
begin

text \<open>
  \<^bold>\<open>Verification of surf's response-decompression middleware\<close>
  (\<^verbatim>\<open>src/src/middleware/compression.rs\<close>, 137 lines of Rust).

  \<^bold>\<open>The program.\<close> \<open>Compression\<close> (a unit struct, lines 28--29, built by
  \<open>new\<close> and \<open>Compression::new\<close>, lines 21--35) is a middleware of an HTTP client
  pipeline. Its \<open>handle\<close> (lines 122--137) inserts
  \<open>Accept-Encoding: gzip, br, deflate, zstd\<close> (\<open>SUPPORTED_ENCODINGS\<close>, line 18,
  through \<open>HeaderValue::from_static\<close>) into the request, runs the rest of the pipeline,
  and calls \<open>decode\<close> on the response (lines 48--117). \<open>decode\<close> reads the first
  \<open>Content-Encoding\<close> value, returns if there is none or if it is not visible ASCII,
  splits it at commas, trims, reverses and parses every token with
  \<open>parse_encoding\<close> (lines 37--46), panicking on an unknown token; then, for each
  encoding in turn, it takes the body (leaving \<open>Body::empty()\<close>), drains the codec's
  decoder stream over it chunk by chunk into a vector, panicking on a failed chunk, and
  stores the vector as the new body; finally it removes \<open>Content-Encoding\<close> with an
  \<open>unwrap\<close>. The codecs (\<open>async_compression\<close>), the header map (\<open>http\<close>) and
  the rest of the pipeline are libraries the file calls.

  \<^bold>\<open>The theories.\<close>
  \<^item> \<open>Prelude\<close>: bytes as \<open>8 word\<close>; the three \<open>unwrap\<close> panics of the file and
    the panic of \<open>from_static\<close> as the datatype \<open>panic\<close>;
    \<open>'a outcome = (panic + 'a) option\<close>, whose \<open>None\<close> is a computation that never
    returns, and its sequencing \<open>out_bind\<close>.
  \<^item> \<open>Str_Ops\<close>: the library operations applied to the header text
    (\<open>HeaderValue::to_str\<close> as \<open>header_to_str\<close>, \<open>str::split\<close> as
    \<open>split_on\<close>, \<open>str::trim\<close> as \<open>trim\<close>, \<open>collect::<Result<Vec<_>,_>>\<close> as
    \<open>collect_result\<close>) with the laws the parser's proofs use.
  \<^item> \<open>Header_Map\<close>: \<open>http::HeaderMap\<close> as a list of entries, a multimap with
    \<open>hm_get\<close> (first value), \<open>hm_remove\<close> (all values) and \<open>hm_insert\<close>
    (replace all values), and their laws through \<open>hm_get_all\<close> (all values of a name).
  \<^item> \<open>Negotiator\<close>: \<open>encoding\<close> (the five tags), \<open>supported_encodings\<close>,
    \<open>parse_encoding\<close>, the chain parser \<open>parse_chain\<close> of lines 56--60, the
    request record, \<open>from_static\<close> and \<open>advertise\<close> (lines 131--132); the printer
    \<open>token\<close> / \<open>print_chain\<close> of a chain is the specification the parser is proved
    against (C3, C25--C27); \<open>encoding\<close> is an instance of \<open>enum\<close>, so
    sets of encodings are computed by the simplifier.
  \<^item> \<open>Stream\<close>: a decoder stream is an external state machine
    \<open>'s \<Rightarrow> ('s \<times> chunk) option\<close>; the drain loop of lines 70--76 is the
    \<^theory_text>\<open>partial_function (option)\<close> \<open>drain\<close>, since nothing bounds how many
    chunks a stream yields. Its specification is \<open>drain_spec\<close>, a fold over the finite
    trace \<open>produces\<close> of the stream; \<open>drain\<close> refines it on every finite trace,
    and every stream whose state decreases in a measure (\<open>stream_wf\<close>) has a finite
    trace, which is the termination argument (C19--C21). No fuel is used: the
    divergence of an endless stream is the value \<open>None\<close>, and a stream that always
    yields another chunk makes \<open>drain\<close> diverge.
  \<^item> \<open>Decoder\<close>: the response record; the codec interface \<open>'s codec\<close> (one
    constructor per codec and the stream step); \<open>decode_with\<close> (one match arm,
    lines 69--77), \<open>decode_encoding\<close> (the match), \<open>decode_chain\<close> (the loop of
    line 66), \<open>decode\<close>, the struct \<open>compression\<close> with its constructors, and
    \<open>handle\<close>; the contract \<open>codec_inverts\<close> a codec library must meet (its decoder
    of \<open>e\<close> undoes its compressor of \<open>e\<close>); and the driver's lemmas: only the body
    and the \<open>Content-Encoding\<close> lines change, a chain of codecs that meet the contract
    undoes the server's encodings in reverse order, panics are chunk panics, the chain
    returns when the streams end; and that \<open>identity\<close> entries are no-ops (C6).
  \<^item> \<open>Task\<close>: \<open>decode\<close> is an \<open>async fn\<close>; its future suspends only at
    \<open>decoded_stream.next().await\<close> (lines 72, 83, 94, 105). The future is the record
    \<open>task\<close> (the response it holds, the encodings left, and its \<open>phase\<close>: waiting on
    a decoder stream, finished, or panicked). \<open>task_start\<close> is the first poll: lines
    48--64 and then \<open>advance\<close>, the loop code that runs without yielding (skip
    \<open>identity\<close>, line 112; take the body and build a decoder, lines 69--71, where the
    future suspends; or, the chain exhausted, the removal of line 116, which ends it).
    \<open>task_step\<close> is one later poll, resuming at the \<open>await\<close>: a chunk is appended,
    a failed chunk panics, or the end of the stream stores the body (line 77) and the
    loop \<open>advance\<close>s within the same poll. \<open>task_steps\<close> is any number of polls and
    \<open>run_task n\<close> an executor polling at most \<open>n\<close> more times. The theory proves the
    simulation (every step keeps \<open>task_result\<close>, the value \<open>decode\<close> computes from
    the state, and \<open>advance\<close> computes what the rest of the loop does), progress (a
    returning \<open>drain\<close> is reached by polls, by \<open>drain.raw_induct\<close>), the invariant
    \<open>task_inv\<close> of the suspension points, and counts the polls of a drain
    (\<open>drain_polls\<close>: one per chunk and one for the end) and of the whole loop
    (\<open>chain_polls\<close>, an inductive count, and \<open>advance_polls\<close>, by rule induction).
    The decoder stream is taken to be pending once before each item, as the
    specification's ``each chunk yield is a suspension point''; a stream that is ready at
    once lets the future run on within a poll, and the counts are then upper bounds.
  \<^item> This theory: a toy codec meeting the contract (tag byte, two-byte chunks) and an
    endless codec, used by the witnesses; \<open>honouring_server\<close>, the server side of the
    negotiation (it reads \<open>Accept-Encoding\<close> and compresses with a chain of the offered
    encodings), used by the end-to-end property; and the properties of the middleware as
    a whole (C1, C2, C4, C5, C7--C18, C22--C24).

  \<^bold>\<open>What is proved.\<close> End-to-end correctness of decoding against any codecs that meet
  their contract (C1) and of the whole negotiation through \<open>handle\<close> against a server
  that honours \<open>Accept-Encoding\<close> (C2), with the order of a multi-layer chain undone
  last-first (C3); the pass-through and identity cases (C4, C5), with \<open>identity\<close> a
  no-op anywhere in a chain (C6); every error path of \<open>decode\<close> (C7, C11, C14) and that
  the final \<open>unwrap\<close> is unreachable (C8); termination on streams that end (C9, C21)
  and divergence on one that does not (C10); the frame of \<open>decode\<close> (C12) and its
  idempotence (C13); the task of the \<open>async fn\<close> refines \<open>decode\<close> (C15), completes
  exactly when \<open>decode\<close> returns (C16), holds an empty body with the original headers
  at every suspension point (C17) and is polled once per chunk plus once per stream end,
  for any chain, \<open>identity\<close> costing none (C18); the drain loop (C19--C21);
  \<open>handle\<close> (C22, C23) and the agreement of what it advertises with what \<open>decode\<close>
  can undo (C24); the parser's exact acceptance (C25, C26); \<open>advertise\<close> never panics
  (C27). No fuel bounds a claim: \<open>run_task n\<close> appears only under an existential
  (C16), at the exact count \<open>n\<close> given by \<open>chain_polls\<close> (C18), or at a concrete
  \<open>n\<close> in a witness, where it is the number of polls the toy codec needs (a two-byte body
  is one chunk: one poll for the chunk, one for the end of the stream; the two-layer
  witness of C18 takes five, an \<open>identity\<close> chain none after the first). Findings: an
  unknown or empty token, or a failed chunk, panics the task where the specification asks
  for typed errors (C7, C11, C25); a non-text value is silently ignored (C14); a chain
  sent as several \<open>Content-Encoding\<close> lines is decoded by its first line only while
  all lines are removed, so the body can be returned still encoded with no header saying
  so (C5); nothing bounds the decoded size or the time spent draining (C10); a task
  cancelled while draining leaves the response without its body (C17); a
  \<open>Content-Length\<close> header survives decoding with the length of the encoded body (C12).

  \<^bold>\<open>Not modelled.\<close> The compression algorithms (abstract codecs with a contract); the
  chunking of the input body (a codec is a function of the body's bytes); the transport
  and the rest of the pipeline (the parameter \<open>next\<close> of \<open>handle\<close>, a function
  from a request to a response or an exception, which absorbs the \<open>client\<close>
  argument); the executor, which appears only as the relation \<open>task_steps\<close> and the
  poll loop \<open>run_task\<close>; other tasks, with which the future shares no state (it owns its
  response), so interleaving with them cannot change its result; the \<open>use\<close>
  declarations and the \<open>Debug\<close> derive (lines 1--15, 28), which have no behaviour.
\<close>

section \<open>A concrete codec for the witnesses\<close>

text \<open>
  The codec libraries are external; the driver's theorems hold for every codec that
  meets \<open>codec_inverts\<close>. To run them on concrete responses the witnesses use a toy
  codec with the same interface: compressing with an encoding prefixes the bytes with a
  tag byte of that encoding, and its decoder checks the tag and yields the rest in chunks
  of two bytes, or one I/O error when the tag is wrong or the input empty.
\<close>

definition toy_tag :: "encoding \<Rightarrow> byte" where
  "toy_tag e = (case e of Gzip \<Rightarrow> 31 | Deflate \<Rightarrow> 120 | Brotli \<Rightarrow> 206 | Zstd \<Rightarrow> 40 | Identity \<Rightarrow> 0)"

definition toy_compress :: "encoding \<Rightarrow> bytes \<Rightarrow> bytes" where
  "toy_compress e p = toy_tag e # p"

fun chunks2 :: "bytes \<Rightarrow> bytes list" where
  "chunks2 [] = []"
| "chunks2 [b] = [[b]]"
| "chunks2 (a # b # bs) = [a, b] # chunks2 bs"

definition toy_decoder :: "encoding \<Rightarrow> bytes \<Rightarrow> chunk list" where
  "toy_decoder e input =
     (case input of
        [] \<Rightarrow> [Inl (Io_error ''unexpected end of stream'')]
      | t # rest \<Rightarrow>
          (if t = toy_tag e then map Inr (chunks2 rest) else [Inl (Io_error ''invalid header'')]))"

definition toy_codec :: "chunk list codec" where
  "toy_codec =
     \<lparr>gzip_new = toy_decoder Gzip, deflate_new = toy_decoder Deflate,
      brotli_new = toy_decoder Brotli, zstd_new = toy_decoder Zstd, dec_next = list_next\<rparr>"

lemma concat_chunks2: "concat (chunks2 bs) = bs"
  by (induction bs rule: chunks2.induct) simp_all

lemma toy_codec_inverts: "codec_inverts toy_compress toy_codec"
proof (unfold codec_inverts_def, intro allI impI)
  fix e new p
  assume "decoder_for toy_codec e = Some new"
  then have "new = toy_decoder e" by (cases e) (simp_all add: toy_codec_def)
  then have "new (toy_compress e p) = map Inr (chunks2 p)"
    by (simp add: toy_decoder_def toy_compress_def)
  moreover have "produces (dec_next toy_codec) (map Inr (chunks2 p)) (map Inr (chunks2 p))"
    by (simp add: toy_codec_def produces_list_next)
  ultimately show "\<exists>bss. produces (dec_next toy_codec) (new (toy_compress e p)) (map Inr bss) \<and> concat bss = p"
    by (auto simp: concat_chunks2)
qed

lemma toy_codec_wf: "stream_wf (dec_next toy_codec) length"
  by (simp add: toy_codec_def stream_wf_list_next)

text \<open>
  A decoder whose stream never ends (each poll yields one more zero byte), as a
  decompression bomb with unbounded output behaves.
\<close>

definition endless_codec :: "nat codec" where
  "endless_codec =
     \<lparr>gzip_new = (\<lambda>_. 0), deflate_new = (\<lambda>_. 0), brotli_new = (\<lambda>_. 0), zstd_new = (\<lambda>_. 0),
      dec_next = (\<lambda>n. Some (Suc n, Inr [0]))\<rparr>"

text \<open>
  The other side of the negotiation, for the end-to-end property: a server that reads
  the request's \<open>Accept-Encoding\<close> with the same list grammar, and answers with the
  plaintext \<open>p\<close> compressed by the chain \<open>es\<close> it chose when every encoding of the
  chain was offered, announcing the chain in \<open>Content-Encoding\<close> in front of its other
  headers \<open>hs\<close>; otherwise it fails the request.
\<close>

definition honouring_server ::
  "(encoding \<Rightarrow> bytes \<Rightarrow> bytes) \<Rightarrow> encoding list \<Rightarrow> bytes \<Rightarrow> header_map \<Rightarrow> 'a request_scheme
     \<Rightarrow> string + response" where
  "honouring_server compress es p hs r =
     (case hm_get (req_headers r) accept_encoding of
        None \<Rightarrow> Inl ''no Accept-Encoding''
      | Some v \<Rightarrow>
          (case parse_chain v of
             Inl _ \<Rightarrow> Inl ''malformed Accept-Encoding''
           | Inr offered \<Rightarrow>
               if list_all (\<lambda>e. e \<in> set offered) es
               then Inr \<lparr>resp_headers = (content_encoding, print_chain es) # hs,
                         resp_body = encode_chain compress es p\<rparr>
               else Inl ''406 Not Acceptable''))"

section \<open>Properties of the middleware\<close>

text \<open>
  C1 (refinement). End-to-end correctness of decoding. If every codec inverts its
  compressor and the server applied the non-empty chain \<open>es\<close> to the plaintext \<open>p\<close>
  in order and announced it as \<open>Content-Encoding: e\<^sub>1, \<dots>, e\<^sub>n\<close>, then \<open>decode\<close>
  returns (no panic, no divergence) the response with body \<open>p\<close>, every
  \<open>Content-Encoding\<close> line removed and everything else unchanged.
\<close>

theorem decode_inverts_server_encoding:
  assumes "codec_inverts compress cd"
    and "hm_get (resp_headers res) content_encoding = Some (print_chain es)"
    and "es \<noteq> []"
    and "resp_body res = encode_chain compress es p"
  shows "decode cd res =
    Some (Inr (res\<lparr>resp_headers := snd (hm_remove (resp_headers res) content_encoding), resp_body := p\<rparr>))"
proof -
  have parsed: "parse_chain (print_chain es) = Inr (rev es)"
    using assms(3) by (rule parse_chain_print_chain)
  have "decode_chain cd res (rev es) = Some (Inr (res\<lparr>resp_body := p\<rparr>))"
    using assms(1,4) by (rule decode_chain_inverts)
  then show ?thesis
    using decode_parsed [OF assms(2) print_chain_to_str parsed, of cd] by simp
qed

theorem decode_inverts_server_encoding_witness:
  "decode toy_codec \<lparr>resp_headers = [(content_encoding, ''gzip, br'')], resp_body = [206, 31, 104, 105]\<rparr> =
     Some (Inr \<lparr>resp_headers = [], resp_body = [104, 105]\<rparr>)"
proof -
  let ?r = "\<lparr>resp_headers = [(content_encoding, ''gzip, br'')], resp_body = [206, 31, 104, 105 :: byte]\<rparr>"
  have "decode toy_codec ?r =
      Some (Inr (?r\<lparr>resp_headers := snd (hm_remove (resp_headers ?r) content_encoding), resp_body := [104, 105]\<rparr>))"
    by (rule decode_inverts_server_encoding [OF toy_codec_inverts, where es = "[Gzip, Brotli]"])
       (simp_all add: print_chain_def encode_chain_def apply_encoding_def toy_compress_def toy_tag_def)
  then show ?thesis by (simp add: hm_remove_def)
qed

text \<open>
  C4 (functional). A response without \<open>Content-Encoding\<close> passes through unchanged
  (the early return of line 63).
\<close>

theorem decode_without_content_encoding:
  "hm_get (resp_headers res) content_encoding = None \<Longrightarrow> decode cd res = Some (Inr res)"
  by (simp add: decode_def)

theorem decode_without_content_encoding_witness:
  "decode toy_codec \<lparr>resp_headers = [(''content-type'', ''text/plain'')], resp_body = [31, 1]\<rparr> =
     Some (Inr \<lparr>resp_headers = [(''content-type'', ''text/plain'')], resp_body = [31, 1]\<rparr>)"
  by (rule decode_without_content_encoding) (simp add: content_encoding_def)

text \<open>
  C5 (functional). \<open>Content-Encoding: identity\<close> is a no-op on the body, and the header
  is still removed. \<open>hm_get\<close> reads the first field line only, so this holds whatever
  later \<open>Content-Encoding\<close> lines say, and all of them are removed.
\<close>

theorem decode_identity:
  "hm_get (resp_headers res) content_encoding = Some ''identity'' \<Longrightarrow>
   decode cd res = Some (Inr (res\<lparr>resp_headers := snd (hm_remove (resp_headers res) content_encoding)\<rparr>))"
proof -
  assume get: "hm_get (resp_headers res) content_encoding = Some ''identity''"
  have str: "header_to_str ''identity'' = Some ''identity''"
    by (simp add: header_to_str_def is_visible_ascii_def)
  have parsed: "parse_chain ''identity'' = Inr [Identity]"
    by (simp add: parse_chain_def trim_def is_whitespace_def parse_encoding_def)
  show ?thesis using decode_parsed [OF get str parsed, of cd] by simp
qed

theorem decode_identity_witness:
  "decode toy_codec \<lparr>resp_headers = [(content_encoding, ''identity'')], resp_body = [104, 105]\<rparr> =
     Some (Inr \<lparr>resp_headers = [], resp_body = [104, 105]\<rparr>)"
  using decode_identity [of "\<lparr>resp_headers = [(content_encoding, ''identity'')], resp_body = [104, 105 :: byte]\<rparr>" toy_codec]
  by (simp add: hm_remove_def)

text \<open>
  C7 (error). A \<open>Content-Encoding\<close> value that is valid header text but not a chain of
  known tokens (\<open>lz4\<close>, \<open>GZIP\<close>, \<open>gzip,\<close>, an empty value) makes \<open>decode\<close>
  panic at the \<open>unwrap\<close> of line 60, before the body is touched; the specification asks
  for a typed error instead.
\<close>

theorem decode_unknown_token_panics:
  "hm_get (resp_headers res) content_encoding = Some v \<Longrightarrow> list_all is_visible_ascii v \<Longrightarrow>
   parse_chain v = Inl () \<Longrightarrow> decode cd res = Some (Inl Parse_unwrap)"
  by (simp add: decode_def header_to_str_def split: sum.split)

theorem decode_unknown_token_panics_witness:
  "decode toy_codec \<lparr>resp_headers = [(content_encoding, ''lz4'')], resp_body = [1, 2]\<rparr> = Some (Inl Parse_unwrap)"
  by (rule decode_unknown_token_panics [where v = "''lz4''"])
     (simp_all add: is_visible_ascii_def parse_chain_def trim_def is_whitespace_def parse_encoding_def)

text \<open>
  C8 (safety). The final \<open>remove(CONTENT_ENCODING).unwrap()\<close> (line 116) never panics:
  \<open>decode\<close> only gets there when the header was present, and no step of the chain
  touches the headers.
\<close>

theorem decode_never_remove_panics: "decode cd res \<noteq> Some (Inl Remove_unwrap)"
proof (cases rule: decode_cases [of cd res])
  case (decoded es v)
  have "decode_chain cd res es \<noteq> Some (Inl Remove_unwrap)"
    using decode_chain_panic by fastforce
  with decoded(2) show ?thesis
    by (auto simp: out_bind_def split: option.split sum.split)
qed simp_all

text \<open>
  C9 (termination). If the codecs' streams all end (their states decrease in some
  measure), \<open>decode\<close> returns, with a response or with a panic.
\<close>

theorem decode_terminates: "stream_wf (dec_next cd) \<mu> \<Longrightarrow> decode cd res \<noteq> None"
proof (cases rule: decode_cases [of cd res])
  case (decoded es v)
  assume wf: "stream_wf (dec_next cd) \<mu>"
  show ?thesis unfolding decoded(2)
    by (rule out_bind_returns) (simp_all add: decode_chain_returns [OF wf])
qed simp_all

theorem decode_terminates_witness:
  "decode toy_codec \<lparr>resp_headers = [(content_encoding, ''br'')], resp_body = [206, 7]\<rparr> \<noteq> None"
  by (rule decode_terminates [OF toy_codec_wf])

text \<open>
  C11 (error). When the decoder of the (single) announced encoding yields a failed chunk,
  \<open>decode\<close> panics with that I/O error at \<open>bytes.unwrap()\<close>; the specification asks
  for a typed error naming the encoding and its position in the chain instead.
\<close>

theorem decode_chunk_error_panics:
  assumes "hm_get (resp_headers res) content_encoding = Some (token e)"
    and "decoder_for cd e = Some new"
    and "produces (dec_next cd) (new (resp_body res)) (map Inr bss @ Inl err # cs)"
  shows "decode cd res = Some (Inl (Chunk_unwrap err))"
proof -
  have str: "header_to_str (token e) = Some (token e)"
    using print_chain_to_str [of "[e]"] by (simp add: print_chain_def)
  have parsed: "parse_chain (token e) = Inr [e]"
    using parse_chain_print_chain [of "[e]"] by (simp add: print_chain_def)
  have "decode_encoding cd res e = Some (Inl (Chunk_unwrap err))"
    using assms(2,3) by (simp add: decode_encoding_eq decode_with_produces drain_spec_error)
  then show ?thesis
    using decode_parsed [OF assms(1) str parsed, of cd] by simp
qed

theorem decode_chunk_error_panics_witness:
  "decode toy_codec \<lparr>resp_headers = [(content_encoding, ''gzip'')], resp_body = [0, 1, 2]\<rparr> =
     Some (Inl (Chunk_unwrap (Io_error ''invalid header'')))"
  by (rule decode_chunk_error_panics [where e = Gzip and new = "toy_decoder Gzip" and bss = "[]" and cs = "[]"])
     (simp_all add: toy_codec_def toy_decoder_def toy_tag_def produces_list_next [of "[Inl (Io_error ''invalid header'')]", simplified])

text \<open>
  C14 (error). A \<open>Content-Encoding\<close> value that is not visible ASCII text (the early
  return of lines 50--54) is ignored: the response keeps its header and its still-encoded
  body, and no error is reported, where the specification asks for a typed error.
\<close>

theorem decode_non_text_header_ignored:
  "hm_get (resp_headers res) content_encoding = Some v \<Longrightarrow> \<not> list_all is_visible_ascii v \<Longrightarrow>
   decode cd res = Some (Inr res)"
  by (simp add: decode_def header_to_str_def)

theorem decode_non_text_header_ignored_witness:
  "decode toy_codec \<lparr>resp_headers = [(content_encoding, ''gzip'' @ [CHR 0xE9])], resp_body = [31, 104]\<rparr> =
     Some (Inr \<lparr>resp_headers = [(content_encoding, ''gzip'' @ [CHR 0xE9])], resp_body = [31, 104]\<rparr>)"
  by (rule decode_non_text_header_ignored [where v = "''gzip'' @ [CHR 0xE9]"])
     (simp_all add: is_visible_ascii_def)

text \<open>
  C12 (safety). Whatever \<open>decode\<close> returns is the input response, or the input with
  its body replaced and every \<open>Content-Encoding\<close> line removed, the header having been
  present: no other header and no other field is ever changed. In particular a
  \<open>Content-Length\<close> header keeps the length of the encoded body, which no longer
  describes the decoded one (the witness).
\<close>

theorem decode_changes_only_body_and_header:
  assumes ret: "decode cd res = Some (Inr res')"
  shows "res' = res \<or>
    (hm_get (resp_headers res) content_encoding \<noteq> None \<and>
     res' = res\<lparr>resp_headers := snd (hm_remove (resp_headers res) content_encoding),
                resp_body := resp_body res'\<rparr>)"
  using ret by (rule decode_frame)

theorem decode_changes_only_body_and_header_witness:
  "decode toy_codec \<lparr>resp_headers = [(''content-length'', ''2''), (content_encoding, ''deflate'')],
                     resp_body = [120, 5]\<rparr> =
     Some (Inr \<lparr>resp_headers = [(''content-length'', ''2'')], resp_body = [5]\<rparr>)
   \<and> (\<lparr>resp_headers = [(''content-length'', ''2'')], resp_body = [5 :: byte]\<rparr> =
        \<lparr>resp_headers = [(''content-length'', ''2''), (content_encoding, ''deflate'')], resp_body = [120, 5]\<rparr>
      \<or> (hm_get (resp_headers \<lparr>resp_headers = [(''content-length'', ''2''), (content_encoding, ''deflate'')],
                                resp_body = [120, 5 :: byte]\<rparr>) content_encoding \<noteq> None
         \<and> \<lparr>resp_headers = [(''content-length'', ''2'')], resp_body = [5 :: byte]\<rparr> =
            \<lparr>resp_headers = [(''content-length'', ''2''), (content_encoding, ''deflate'')], resp_body = [120, 5]\<rparr>
            \<lparr>resp_headers := snd (hm_remove (resp_headers \<lparr>resp_headers = [(''content-length'', ''2''),
                 (content_encoding, ''deflate'')], resp_body = [120, 5 :: byte]\<rparr>) content_encoding),
             resp_body := resp_body \<lparr>resp_headers = [(''content-length'', ''2'')], resp_body = [5 :: byte]\<rparr>\<rparr>))
   \<and> length [5 :: byte] \<noteq> 2"
proof -
  let ?r = "\<lparr>resp_headers = [(''content-length'', ''2''), (content_encoding, ''deflate'')],
             resp_body = [120, 5 :: byte]\<rparr>"
  have hdr: "hm_get (resp_headers ?r) content_encoding = Some ''deflate''"
    by (simp add: content_encoding_def)
  have parsed: "parse_chain ''deflate'' = Inr [Deflate]"
    using parse_chain_print_chain [of "[Deflate]"] by (simp add: print_chain_def)
  have str: "header_to_str ''deflate'' = Some ''deflate''"
    using print_chain_to_str [of "[Deflate]"] by (simp add: print_chain_def)
  have "resp_body ?r = encode_chain toy_compress [Deflate] [5]"
    by (simp add: encode_chain_def apply_encoding_def toy_compress_def toy_tag_def)
  then have "decode_chain toy_codec ?r (rev [Deflate]) = Some (Inr (?r\<lparr>resp_body := [5]\<rparr>))"
    by (rule decode_chain_inverts [OF toy_codec_inverts])
  then have d: "decode toy_codec ?r =
      Some (Inr \<lparr>resp_headers = [(''content-length'', ''2'')], resp_body = [5]\<rparr>)"
    using decode_parsed [OF hdr str parsed, of toy_codec] by (simp add: hm_remove_def content_encoding_def)
  have f: "\<lparr>resp_headers = [(''content-length'', ''2'')], resp_body = [5 :: byte]\<rparr> = ?r \<or>
      (hm_get (resp_headers ?r) content_encoding \<noteq> None \<and>
       \<lparr>resp_headers = [(''content-length'', ''2'')], resp_body = [5 :: byte]\<rparr> =
         ?r\<lparr>resp_headers := snd (hm_remove (resp_headers ?r) content_encoding),
            resp_body := resp_body \<lparr>resp_headers = [(''content-length'', ''2'')], resp_body = [5 :: byte]\<rparr>\<rparr>)"
    by (rule decode_changes_only_body_and_header [OF d])
  have "length [5 :: byte] \<noteq> 2" by simp
  with d f show ?thesis by (intro conjI)
qed

text \<open>
  C23 (error). An exception of the rest of the pipeline (\<open>next.run(..).await?\<close>) is
  returned as it is, with no decoding.
\<close>

theorem handle_propagates_exception:
  "next (with_accept_encoding supported_encodings req) = Inl ex \<Longrightarrow>
   handle self cd next req = Some (Inr (Inl ex))"
  by (simp add: handle_eq)

theorem handle_propagates_exception_witness:
  "handle new_fn toy_codec (\<lambda>_. Inl ''connection refused'') \<lparr>req_headers = [], req_body = []\<rparr> =
     Some (Inr (Inl ''connection refused''))"
  by (rule handle_propagates_exception) simp

text \<open>
  C22 (functional). When \<open>handle\<close> returns a response, the pipeline was run on the
  request with \<open>Accept-Encoding\<close> set to the capability string, and the response
  returned is the pipeline's response decoded.
\<close>

theorem handle_advertises_then_decodes:
  "handle self cd next req = Some (Inr (Inr res')) \<Longrightarrow>
   \<exists>req' res. advertise req = Some (Inr req') \<and> next req' = Inr res \<and>
     decode cd res = Some (Inr res') \<and> hm_get (req_headers req') accept_encoding = Some supported_encodings"
  by (auto simp: handle_eq advertise_eq with_accept_encoding_get out_map_Inr_iff split: sum.splits)

theorem handle_advertises_then_decodes_witness:
  "handle new_fn toy_codec (\<lambda>_. Inr \<lparr>resp_headers = [], resp_body = [1 :: byte]\<rparr>) \<lparr>req_headers = [], req_body = []\<rparr> =
     Some (Inr (Inr \<lparr>resp_headers = [], resp_body = [1]\<rparr>))
   \<and> decode toy_codec \<lparr>resp_headers = [], resp_body = [1 :: byte]\<rparr> = Some (Inr \<lparr>resp_headers = [], resp_body = [1]\<rparr>)"
proof -
  have h: "handle new_fn toy_codec (\<lambda>_. Inr \<lparr>resp_headers = [], resp_body = [1 :: byte]\<rparr>) \<lparr>req_headers = [], req_body = []\<rparr> =
     Some (Inr (Inr \<lparr>resp_headers = [], resp_body = [1]\<rparr>))"
    by (simp add: handle_eq decode_def)
  from handle_advertises_then_decodes [OF h] h show ?thesis by auto
qed

text \<open>
  C10 (liveness). \<open>decode\<close> has no bound on the decoded size and no timeout: if the
  decoder of the announced encoding never ends its stream, \<open>decode\<close> never returns.
\<close>

theorem decode_hangs_on_endless_stream:
  assumes "hm_get (resp_headers res) content_encoding = Some (token e)"
    and "decoder_for cd e = Some new"
    and "\<And>st. \<exists>st' bs. dec_next cd st = Some (st', Inr bs)"
  shows "decode cd res = None"
proof -
  have str: "header_to_str (token e) = Some (token e)"
    using print_chain_to_str [of "[e]"] by (simp add: print_chain_def)
  have parsed: "parse_chain (token e) = Inr [e]"
    using parse_chain_print_chain [of "[e]"] by (simp add: print_chain_def)
  have "drain (dec_next cd) (new (resp_body res)) [] = None"
    using assms(3) by (rule drain_endless_None)
  then have "decode_encoding cd res e = None"
    using assms(2) by (simp add: decode_encoding_eq decode_with_def)
  then show ?thesis
    using decode_parsed [OF assms(1) str parsed, of cd] by simp
qed

theorem decode_hangs_on_endless_stream_witness:
  "decode endless_codec \<lparr>resp_headers = [(content_encoding, ''gzip'')], resp_body = [31, 0]\<rparr> = None"
  by (rule decode_hangs_on_endless_stream [where e = Gzip and new = "\<lambda>_. 0"])
     (simp_all add: endless_codec_def)

text \<open>
  C13 (invariant). Decoding is idempotent: a response that \<open>decode\<close> returned passes
  through a second \<open>decode\<close> unchanged (it no longer has a \<open>Content-Encoding\<close>, or it
  was passed through the first time).
\<close>

theorem decode_idempotent:
  assumes ret: "decode cd res = Some (Inr res')"
  shows "decode cd res' = Some (Inr res')"
proof (cases rule: decode_cases [of cd res])
  case passed
  with ret show ?thesis by simp
next
  case rejected
  with ret show ?thesis by simp
next
  case (decoded es v)
  with ret obtain r1 where
    r': "res' = r1\<lparr>resp_headers := snd (hm_remove (resp_headers res) content_encoding)\<rparr>"
    by (auto simp: out_bind_Inr_iff)
  then have "hm_get (resp_headers res') content_encoding = None"
    by (simp add: hm_get_remove)
  then show ?thesis by (simp add: decode_def)
qed

theorem decode_idempotent_witness:
  "decode toy_codec \<lparr>resp_headers = [], resp_body = [1, 2]\<rparr> = Some (Inr \<lparr>resp_headers = [], resp_body = [1, 2 :: byte]\<rparr>)"
proof -
  have "decode toy_codec \<lparr>resp_headers = [(content_encoding, ''identity'')], resp_body = [1, 2 :: byte]\<rparr> =
      Some (Inr \<lparr>resp_headers = [], resp_body = [1, 2]\<rparr>)"
    using decode_parsed [of "\<lparr>resp_headers = [(content_encoding, ''identity'')], resp_body = [1, 2 :: byte]\<rparr>"
        "''identity''" "''identity''" "[Identity]" toy_codec]
    by (simp add: header_to_str_def is_visible_ascii_def parse_chain_def trim_def is_whitespace_def
        parse_encoding_def hm_remove_def)
  then show ?thesis by (rule decode_idempotent)
qed

text \<open>
  C15 (refinement). The cooperative task refines \<open>decode\<close>: whatever interleaving of
  polls brings the task to completion, a finished task holds the response \<open>decode\<close>
  returns, and a panicked one the panic \<open>decode\<close> raises.
\<close>

theorem task_refines_decode:
  assumes "task_steps cd (task_start cd res) t"
  shows "(tk_phase t = Finished \<longrightarrow> decode cd res = Some (Inr (tk_res t))) \<and>
         (tk_phase t = Panicked p \<longrightarrow> decode cd res = Some (Inl p))"
  using task_steps_decode [OF assms] by auto

theorem task_refines_decode_witness:
  "decode toy_codec \<lparr>resp_headers = [(content_encoding, ''gzip'')], resp_body = [31, 104, 105]\<rparr> =
     Some (Inr \<lparr>resp_headers = [], resp_body = [104, 105 :: byte]\<rparr>)"
proof -
  let ?r = "\<lparr>resp_headers = [(content_encoding, ''gzip'')], resp_body = [31, 104, 105 :: byte]\<rparr>"
  have run: "run_task 6 toy_codec (task_start toy_codec ?r) =
     \<lparr>tk_res = \<lparr>resp_headers = [], resp_body = [104, 105]\<rparr>, tk_todo = [], tk_phase = Finished\<rparr>"
    by (simp add: eval_nat_numeral task_start_def task_step_def toy_codec_def toy_decoder_def
        toy_tag_def header_to_str_def is_visible_ascii_def parse_chain_def trim_def is_whitespace_def
        parse_encoding_def hm_remove_def)
  from task_refines_decode [OF task_steps_run [of toy_codec "task_start toy_codec ?r" 6], of Parse_unwrap] run
  show ?thesis by simp
qed

text \<open>
  C16 (liveness). An executor that keeps polling the task sees it complete exactly when
  \<open>decode\<close> returns: some number of polls brings the task to its last state if and only
  if \<open>decode\<close> returns a response or panics, so a diverging \<open>decode\<close> is a task that is
  pending forever.
\<close>

theorem task_completes_iff_decode_returns:
  fixes cd :: "'s codec" and res :: "'a response_scheme"
  shows "(\<exists>n. terminal (run_task n cd (task_start cd res))) \<longleftrightarrow> decode cd res \<noteq> None"
proof
  assume "\<exists>n. terminal (run_task n cd (task_start cd res))"
  then obtain n where "terminal (run_task n cd (task_start cd res))" ..
  moreover have "decode cd res = task_result cd (run_task n cd (task_start cd res))"
    by (rule task_steps_decode [OF task_steps_run, symmetric])
  ultimately show "decode cd res \<noteq> None"
    by (auto simp: terminal_def)
next
  assume "decode cd res \<noteq> None"
  from task_start_progress [OF this] obtain t :: "('s, 'a) task"
    where "task_steps cd (task_start cd res) t" "terminal t"
    by blast
  then show "\<exists>n. terminal (run_task n cd (task_start cd res))"
    by (metis task_steps_run_terminal)
qed

text \<open>
  C17 (invariant). At every suspension point of the task, that is in every state where
  it waits on a decoder stream, the response it owns has an empty body and the headers
  and extension fields it arrived with: a task dropped there (the request cancelled)
  has lost the body, which \<open>take_body\<close> has moved into the decoder.
\<close>

theorem task_suspended_state:
  assumes "task_steps cd (task_start cd res) t" and "tk_phase t = Draining st acc"
  shows "resp_body (tk_res t) = [] \<and> resp_headers (tk_res t) = resp_headers res \<and>
         response.more (tk_res t) = response.more res"
  using task_inv_steps [OF assms(1)] assms(2) by (simp add: task_inv_def)

theorem task_suspended_state_witness:
  "resp_body (tk_res (run_task 1 toy_codec
      (task_start toy_codec \<lparr>resp_headers = [(content_encoding, ''gzip'')], resp_body = [31, 104, 105 :: byte]\<rparr>))) = []"
proof -
  let ?r = "\<lparr>resp_headers = [(content_encoding, ''gzip'')], resp_body = [31, 104, 105 :: byte]\<rparr>"
  have ph: "tk_phase (run_task 1 toy_codec (task_start toy_codec ?r)) = Draining [] [104, 105]"
    by (simp add: eval_nat_numeral task_start_def task_step_def toy_codec_def toy_decoder_def
        toy_tag_def header_to_str_def is_visible_ascii_def parse_chain_def trim_def is_whitespace_def
        parse_encoding_def)
  from task_suspended_state [OF task_steps_run ph] show ?thesis by simp
qed

text \<open>
  C24 (functional). The client advertises exactly what it can undo: the capability string
  of \<open>handle\<close> parses, with the parser \<open>decode\<close> uses, to the encodings that
  have a decoder in \<open>decode\<close>'s match, each once: every encoding but \<open>identity\<close>,
  which has none.
\<close>

theorem advertised_encodings_are_decodable:
  "case parse_chain supported_encodings of
     Inl _ \<Rightarrow> False
   | Inr es \<Rightarrow> distinct es \<and> set es = {e. decoder_for cd e \<noteq> None} \<and> set es = UNIV - {Identity}"
proof -
  have "{e. decoder_for cd e \<noteq> None} = {Zstd, Deflate, Brotli, Gzip}"
    by (auto elim: decoder_for.elims)
  moreover have "UNIV - {Identity} = {Zstd, Deflate, Brotli, Gzip}"
    by (auto simp: UNIV_enum enum_encoding_def)
  ultimately show ?thesis by (simp add: supported_encodings_parse)
qed


text \<open>
  C2 (refinement). The negotiation closes end to end: whatever chain of the offered
  encodings a server chooses, applying it to the plaintext with codecs whose decoders
  meet their contract, \<open>handle\<close> hands back the plaintext with the server's other
  headers, neither panicking nor diverging. It composes \<open>advertise\<close>, the
  \<open>Accept-Encoding\<close> grammar, the chain parser, the decode loop and the header
  removal.
\<close>

theorem handle_roundtrip:
  assumes inv: "codec_inverts compress cd" and ne: "es \<noteq> []"
    and offered: "set es \<subseteq> {Gzip, Deflate, Brotli, Zstd}"
    and hs: "hm_get hs content_encoding = None"
  shows "handle self cd (honouring_server compress es p hs) req =
           Some (Inr (Inr \<lparr>resp_headers = hs, resp_body = p\<rparr>))"
proof -
  let ?r = "with_accept_encoding supported_encodings req"
  let ?res = "\<lparr>resp_headers = (content_encoding, print_chain es) # hs,
               resp_body = encode_chain compress es p\<rparr>"
  have srv: "honouring_server compress es p hs ?r = Inr ?res"
    using offered by (auto simp: honouring_server_def with_accept_encoding_get supported_encodings_parse
        list_all_iff)
  have parsed: "parse_chain (print_chain es) = Inr (rev es)"
    using ne by (rule parse_chain_print_chain)
  have chain: "decode_chain cd ?res (rev es) = Some (Inr (?res\<lparr>resp_body := p\<rparr>))"
    using inv by (rule decode_chain_inverts) simp
  have removed: "snd (hm_remove (resp_headers ?res) content_encoding) = hs"
    using hs by (force simp: hm_remove_def hm_get_None_iff filter_id_conv)
  have "decode cd ?res = Some (Inr \<lparr>resp_headers = hs, resp_body = p\<rparr>)"
    using decode_parsed [of ?res "print_chain es" "print_chain es" "rev es" cd] chain parsed removed
    by (simp add: print_chain_to_str)
  with srv show ?thesis by (simp add: handle_eq)
qed

theorem handle_roundtrip_witness:
  "handle new_fn toy_codec (honouring_server toy_compress [Gzip, Brotli] [104, 105] [])
     \<lparr>req_headers = [], req_body = []\<rparr> =
   Some (Inr (Inr \<lparr>resp_headers = [], resp_body = [104, 105]\<rparr>))"
  by (rule handle_roundtrip [OF toy_codec_inverts]) simp_all

text \<open>
  C18 (bounds). The decode task is polled once per chunk, for any chain: a poll resumes
  the future at \<open>decoded_stream.next().await\<close>, the only place it suspends. If the
  loop over the parsed chain takes \<open>n\<close> such resumptions by \<open>chain_polls\<close> (per
  codec one per chunk and one for the end of its stream; \<open>identity\<close> entries, decoder
  construction and the header removal run within a poll) and leaves the body \<open>b'\<close>,
  then \<open>n\<close> polls after the first the task has finished with the result of
  \<open>decode\<close>, and it is pending after every smaller number: it never drains a whole
  stream in one poll, and never finishes early; a chain without codecs finishes in the
  first poll.
\<close>

theorem task_poll_count:
  fixes cd :: "'s codec" and res :: "'a response_scheme"
  assumes hdr: "hm_get (resp_headers res) content_encoding = Some v"
    and str: "header_to_str v = Some s" and parsed: "parse_chain s = Inr es"
    and polls: "chain_polls cd (resp_body res) es n b'"
  shows "run_task n cd (task_start cd res) =
           \<lparr>tk_res = res\<lparr>resp_headers := snd (hm_remove (resp_headers res) content_encoding),
                          resp_body := b'\<rparr>,
            tk_todo = [], tk_phase = Finished\<rparr> \<and>
         decode cd res =
           Some (Inr (res\<lparr>resp_headers := snd (hm_remove (resp_headers res) content_encoding),
                          resp_body := b'\<rparr>)) \<and>
         (\<forall>m < n. \<not> terminal (run_task m cd (task_start cd res :: ('s, 'a) task)))"
proof -
  have t0: "task_start cd res = advance cd res es"
    using hdr str parsed by (simp add: task_start_def)
  obtain old hs where rm: "hm_remove (resp_headers res) content_encoding = (Some old, hs)"
    using hdr hm_remove_prev [of "resp_headers res" content_encoding]
    by (cases "hm_remove (resp_headers res) content_encoding") auto
  from advance_polls [OF polls refl rm] t0
  have run: "run_task n cd (task_start cd res) =
      \<lparr>tk_res = res\<lparr>resp_headers := hs, resp_body := b'\<rparr>, tk_todo = [], tk_phase = Finished\<rparr>"
    and pend: "\<forall>m < n. \<not> terminal (run_task m cd (task_start cd res :: ('s, 'a) task))"
    by simp_all
  have "decode cd res = task_result cd (run_task n cd (task_start cd res :: ('s, 'a) task))"
    by (rule task_steps_decode [OF task_steps_run, symmetric])
  with run have "decode cd res = Some (Inr (res\<lparr>resp_headers := hs, resp_body := b'\<rparr>))"
    by simp
  with run pend rm show ?thesis by simp
qed

theorem task_poll_count_witness:
  "run_task 5 toy_codec (task_start toy_codec \<lparr>resp_headers = [(content_encoding, ''gzip, br'')], resp_body = [206, 31, 104, 105 :: byte]\<rparr>) =
     \<lparr>tk_res = \<lparr>resp_headers = [], resp_body = [104, 105]\<rparr>, tk_todo = [], tk_phase = Finished\<rparr>
   \<and> \<not> terminal (run_task 4 toy_codec
        (task_start toy_codec \<lparr>resp_headers = [(content_encoding, ''gzip, br'')], resp_body = [206, 31, 104, 105 :: byte]\<rparr>
          :: (chunk list, unit) task))
   \<and> task_start toy_codec \<lparr>resp_headers = [(content_encoding, ''identity'')], resp_body = [7 :: byte]\<rparr> =
       \<lparr>tk_res = \<lparr>resp_headers = [], resp_body = [7]\<rparr>, tk_todo = [], tk_phase = Finished\<rparr>"
proof -
  let ?r = "\<lparr>resp_headers = [(content_encoding, ''gzip, br'')], resp_body = [206, 31, 104, 105 :: byte]\<rparr>"
  let ?i = "\<lparr>resp_headers = [(content_encoding, ''identity'')], resp_body = [7 :: byte]\<rparr>"
  have hdr: "hm_get (resp_headers ?r) content_encoding = Some ''gzip, br''" by simp
  have str: "header_to_str ''gzip, br'' = Some ''gzip, br''"
    by (simp add: header_to_str_def is_visible_ascii_def)
  have parsed: "parse_chain ''gzip, br'' = Inr [Brotli, Gzip]"
    by (simp add: parse_chain_def trim_def is_whitespace_def parse_encoding_def)
  have gz: "chain_polls toy_codec [31, 104, 105] [Gzip] (Suc (length [[104, 105 :: byte]]) + 0) [104, 105]"
  proof (rule polls_codec)
    show "decoder_for toy_codec Gzip = Some (toy_decoder Gzip)" by (simp add: toy_codec_def)
    show "produces (dec_next toy_codec) (toy_decoder Gzip [31, 104, 105]) (map Inr [[104, 105]])"
      using produces_list_next [of "map Inr [[104, 105 :: byte]]"]
      by (simp add: toy_codec_def toy_decoder_def toy_tag_def)
    show "chain_polls toy_codec (concat [[104, 105]]) [] 0 [104, 105]"
      using polls_end [of toy_codec "[104, 105]"] by simp
  qed
  have br: "chain_polls toy_codec [206, 31, 104, 105] [Brotli, Gzip]
      (Suc (length [[31, 104], [105 :: byte]]) + (Suc (length [[104, 105 :: byte]]) + 0)) [104, 105]"
  proof (rule polls_codec)
    show "decoder_for toy_codec Brotli = Some (toy_decoder Brotli)" by (simp add: toy_codec_def)
    show "produces (dec_next toy_codec) (toy_decoder Brotli [206, 31, 104, 105]) (map Inr [[31, 104], [105]])"
      using produces_list_next [of "map Inr [[31, 104], [105 :: byte]]"]
      by (simp add: toy_codec_def toy_decoder_def toy_tag_def)
    show "chain_polls toy_codec (concat [[31, 104], [105]]) [Gzip] (Suc (length [[104, 105 :: byte]]) + 0) [104, 105]"
      using gz by simp
  qed
  from br have br': "chain_polls toy_codec (resp_body ?r) [Brotli, Gzip] 5 [104, 105]"
    by (simp add: eval_nat_numeral)
  from task_poll_count [OF hdr str parsed br']
  have a: "run_task 5 toy_codec (task_start toy_codec ?r) =
      \<lparr>tk_res = ?r\<lparr>resp_headers := snd (hm_remove (resp_headers ?r) content_encoding),
                     resp_body := [104, 105]\<rparr>, tk_todo = [], tk_phase = Finished\<rparr>"
    and b: "\<forall>m < 5. \<not> terminal (run_task m toy_codec (task_start toy_codec ?r :: (chunk list, unit) task))"
    by simp_all
  have ihdr: "hm_get (resp_headers ?i) content_encoding = Some ''identity''" by simp
  have istr: "header_to_str ''identity'' = Some ''identity''"
    by (simp add: header_to_str_def is_visible_ascii_def)
  have iparsed: "parse_chain ''identity'' = Inr [Identity]"
    by (simp add: parse_chain_def trim_def is_whitespace_def parse_encoding_def)
  have ip: "chain_polls toy_codec (resp_body ?i) [Identity] 0 [7]"
    by (rule polls_skip) (simp_all add: toy_codec_def polls_end)
  from task_poll_count [OF ihdr istr iparsed ip]
  have c: "task_start toy_codec ?i =
      \<lparr>tk_res = ?i\<lparr>resp_headers := snd (hm_remove (resp_headers ?i) content_encoding),
                     resp_body := [7]\<rparr>, tk_todo = [], tk_phase = Finished\<rparr>"
    by simp
  from a have "run_task 5 toy_codec (task_start toy_codec ?r) =
      \<lparr>tk_res = \<lparr>resp_headers = [], resp_body = [104, 105]\<rparr>, tk_todo = [], tk_phase = Finished\<rparr>"
    by (simp add: hm_remove_def)
  moreover from b have "\<not> terminal (run_task 4 toy_codec (task_start toy_codec ?r :: (chunk list, unit) task))"
    by simp
  moreover from c have "task_start toy_codec ?i =
      \<lparr>tk_res = \<lparr>resp_headers = [], resp_body = [7]\<rparr>, tk_todo = [], tk_phase = Finished\<rparr>"
    by (simp add: hm_remove_def)
  ultimately show ?thesis by blast
qed

end
